theory Spec2Isabelle
  imports Main "HOL-Library.Sublist" "HOL-Library.Word"
begin

section \<open>Python values used by \<^verbatim>\<open>main.py\<close>\<close>

text \<open>
  A Python \<^verbatim>\<open>str\<close> is modelled as a \<^typ>\<open>string\<close>: a list of characters, each
  \<^typ>\<open>char\<close> standing for one code point in the range 0..255.  A Python
  \<^verbatim>\<open>bytes\<close> value is a list of 8-bit words.  An exception is a value of
  \<open>py_error\<close>; a function that can raise returns \<open>py_error + 'a\<close>, with \<open>Inl\<close>
  for the exception.  \<open>LibraryError\<close> stands for whatever an external library call
  (the PDF reader, the DOCX reader, the language model client) raises.
\<close>

datatype py_error = ValueError | IndexError | UnicodeEncodeError | LibraryError string

type_synonym bytes = "8 word list"

subsection \<open>\<^verbatim>\<open>str\<close> methods\<close>

text \<open>\<^verbatim>\<open>str.isspace\<close> on one code point below 256: TAB..CR, FS..US, space, NEL, NBSP.\<close>

definition py_isspace :: "char \<Rightarrow> bool" where
  "py_isspace c =
     (let n = (of_char c :: nat)
      in (9 \<le> n \<and> n \<le> 13) \<or> (28 \<le> n \<and> n \<le> 32) \<or> n = 133 \<or> n = 160)"

text \<open>\<^verbatim>\<open>s.strip()\<close>: whitespace removed from both ends.\<close>

definition str_strip :: "string \<Rightarrow> string" where
  "str_strip s = rev (dropWhile py_isspace (rev (dropWhile py_isspace s)))"

text \<open>\<^verbatim>\<open>s.lower()\<close>, code point by code point: A..Z and the Latin-1 capitals
  (0xC0..0xDE except the multiplication sign 0xD7) move up by 32.\<close>

definition lower_char :: "char \<Rightarrow> char" where
  "lower_char c =
     (let n = (of_char c :: nat)
      in if (65 \<le> n \<and> n \<le> 90) \<or> (192 \<le> n \<and> n \<le> 222 \<and> n \<noteq> 215)
         then char_of (n + 32) else c)"

definition str_lower :: "string \<Rightarrow> string" where
  "str_lower s = map lower_char s"

text \<open>\<^verbatim>\<open>s.endswith(suffix)\<close>.\<close>

definition str_endswith :: "string \<Rightarrow> string \<Rightarrow> bool" where
  "str_endswith s suf =
     (length suf \<le> length s \<and> drop (length s - length suf) s = suf)"

text \<open>
  The index of the leftmost occurrence of \<open>sub\<close> in a string (what \<^verbatim>\<open>s.find(sub)\<close>
  computes, with \<open>None\<close> for \<^verbatim>\<open>-1\<close>).  \<^verbatim>\<open>split\<close> and \<^verbatim>\<open>replace\<close> both work by
  repeatedly finding the next occurrence after the previous one.
\<close>

fun find_first :: "string \<Rightarrow> string \<Rightarrow> nat option" where
  "find_first sub [] = (if sub = [] then Some 0 else None)"
| "find_first sub (c # cs) =
     (if prefix sub (c # cs) then Some 0 else map_option Suc (find_first sub cs))"

text \<open>
  The pieces of \<^verbatim>\<open>s.split(sep)\<close> for a nonempty separator: cut at the leftmost
  occurrence, continue after it.  (For the empty separator, which Python rejects,
  the function returns the string whole; \<open>str_split\<close> below raises there.)
\<close>

function split_pieces :: "string \<Rightarrow> string \<Rightarrow> string list" where
  "split_pieces s sep =
     (if sep = [] then [s]
      else (case find_first sep s of
              None \<Rightarrow> [s]
            | Some i \<Rightarrow> take i s # split_pieces (drop (i + length sep) s) sep))"
  by pat_completeness auto
termination
proof (relation "measure (\<lambda>(s, sep). length s)")
  show "wf (measure (\<lambda>(s, sep). length s))"
    by simp
next
  fix s sep :: string and i :: nat
  assume "sep \<noteq> []" and "find_first sep s = Some i"
  then have "s \<noteq> []" and "0 < length sep"
    by auto
  then show "((drop (i + length sep) s, sep), (s, sep)) \<in> measure (\<lambda>(s, sep). length s)"
    by (cases s) auto
qed

declare split_pieces.simps [simp del]

definition str_split :: "string \<Rightarrow> string \<Rightarrow> py_error + string list" where
  "str_split s sep = (if sep = [] then Inl ValueError else Inr (split_pieces s sep))"

text \<open>\<^verbatim>\<open>sep.join(items)\<close>.\<close>

fun str_join :: "string \<Rightarrow> string list \<Rightarrow> string" where
  "str_join sep [] = []"
| "str_join sep [x] = x"
| "str_join sep (x # y # ys) = x @ sep @ str_join sep (y # ys)"

text \<open>
  \<^verbatim>\<open>s.replace(old, new)\<close>: every leftmost non-overlapping occurrence of \<open>old\<close> is
  replaced, and the text put in is not scanned again.  For the empty \<open>old\<close> Python
  puts \<open>new\<close> before every character and at the end.
\<close>

function str_replace :: "string \<Rightarrow> string \<Rightarrow> string \<Rightarrow> string" where
  "str_replace s old new =
     (if old = [] then new @ concat (map (\<lambda>c. c # new) s)
      else (case find_first old s of
              None \<Rightarrow> s
            | Some i \<Rightarrow> take i s @ new @ str_replace (drop (i + length old) s) old new))"
  by pat_completeness auto
termination
proof (relation "measure (\<lambda>(s, old, new). length s)")
  show "wf (measure (\<lambda>(s, old, new). length s))"
    by simp
next
  fix s old new :: string and i :: nat
  assume "old \<noteq> []" and "find_first old s = Some i"
  then have "s \<noteq> []" and "0 < length old"
    by auto
  then show "((drop (i + length old) s, old, new), (s, old, new))
      \<in> measure (\<lambda>(s, old, new). length s)"
    by (cases s) auto
qed

declare str_replace.simps [simp del]

text \<open>\<^verbatim>\<open>xs[i]\<close> for a non-negative index: \<^verbatim>\<open>IndexError\<close> out of range.\<close>

definition py_index :: "'a list \<Rightarrow> nat \<Rightarrow> py_error + 'a" where
  "py_index xs i = (if i < length xs then Inr (xs ! i) else Inl IndexError)"

text \<open>The number of positions of a string at which \<open>sub\<close> occurs (overlaps counted).\<close>

fun count_occ :: "string \<Rightarrow> string \<Rightarrow> nat" where
  "count_occ sub [] = 0"
| "count_occ sub (c # cs) = (if prefix sub (c # cs) then 1 else 0) + count_occ sub cs"

section \<open>Site synthesizer: the delimiter parser\<close>

text \<open>The dictionary \<^verbatim>\<open>{"html": ..., "css": ..., "js": ...}\<close> returned by
  \<^verbatim>\<open>build_website_from_spec\<close>.\<close>

record website =
  html :: string
  css :: string
  js :: string

text \<open>
  \<^verbatim>\<open>
  def extract_between(marker: str, text: str) -> str:
      parts = text.split(marker)
      if len(parts) < 3:
          return ""
      return parts[1].strip()
  \<close>
\<close>

definition extract_between :: "string \<Rightarrow> string \<Rightarrow> py_error + string" where
  "extract_between marker text =
     (case str_split text marker of
        Inl e \<Rightarrow> Inl e
      | Inr parts \<Rightarrow>
          if length parts < 3 then Inr ''''
          else (case py_index parts 1 of
                  Inl e \<Rightarrow> Inl e
                | Inr p \<Rightarrow> Inr (str_strip p)))"

text \<open>
  Lines 139 to 155 of \<^verbatim>\<open>build_website_from_spec\<close>: the three calls of
  \<^verbatim>\<open>extract_between\<close> on the raw response, in the order html, css, js, and the
  dictionary built from them.
\<close>

definition website_of_response :: "string \<Rightarrow> py_error + website" where
  "website_of_response raw =
     (case extract_between ''--html--'' raw of
        Inl e \<Rightarrow> Inl e
      | Inr html_code \<Rightarrow>
          (case extract_between ''--css--'' raw of
             Inl e \<Rightarrow> Inl e
           | Inr css_code \<Rightarrow>
               (case extract_between ''--js--'' raw of
                  Inl e \<Rightarrow> Inl e
                | Inr js_code \<Rightarrow>
                    Inr \<lparr>html = html_code, css = css_code, js = js_code\<rparr>)))"

text \<open>
  \<^verbatim>\<open>build_website_from_spec\<close>.  The model call \<^verbatim>\<open>llm.invoke(messages)\<close> is the
  parameter \<open>llm\<close>: the messages are the fixed system prompt and the specification
  text, so the call is a function of the specification text, returning the
  response's content or raising.
\<close>

definition build_website_from_spec ::
    "(string \<Rightarrow> py_error + string) \<Rightarrow> string \<Rightarrow> py_error + website" where
  "build_website_from_spec llm spec_text =
     (case llm spec_text of
        Inl e \<Rightarrow> Inl e
      | Inr raw \<Rightarrow> website_of_response raw)"

text \<open>
  The segment of a marker as the specification words it: the text strictly between
  the opening and the closing occurrence of the marker (the leftmost occurrence, and
  the leftmost one after its end), whitespace-trimmed; empty when the marker does not
  occur twice.
\<close>

definition segment_spec :: "string \<Rightarrow> string \<Rightarrow> string" where
  "segment_spec marker raw =
     (case find_first marker raw of
        None \<Rightarrow> ''''
      | Some a \<Rightarrow>
          (case find_first marker (drop (a + length marker) raw) of
             None \<Rightarrow> ''''
           | Some k \<Rightarrow> str_strip (take k (drop (a + length marker) raw))))"

text \<open>Two concrete responses: a well-formed one, and one whose css marker is not
  closed and whose js marker occurs once.\<close>

definition sample_response :: string where
  "sample_response =
     ''Sure!\<newline>--html--\<newline><p>--hi--</p>\<newline>--html--\<newline>--css--\<newline>p { color: red; }\<newline>--css--\<newline>--js--\<newline>let x = 1;\<newline>--js--\<newline>''"

definition partial_response :: string where
  "partial_response = ''--html--\<newline><p>hi</p>\<newline>--html--\<newline>--css--\<newline>p { }\<newline>let x = 1;\<newline>--js--''"

section \<open>Preview sanitizer\<close>

text \<open>
  \<^verbatim>\<open>force_light_theme\<close>: the triple-quoted \<^verbatim>\<open>override_css\<close> (one literal per source
  line; the text opens with the line break after the opening quotes and closes with
  the four spaces before the closing quotes), and the f-string that puts the style
  block and the fragment into the document shell.
\<close>

definition override_css :: string where
  "override_css =
     ''\<newline>'' @
     ''    <style>\<newline>'' @
     ''    body, html {\<newline>'' @
     ''        background-color: #ffffff !important;\<newline>'' @
     ''        color: #111111 !important;\<newline>'' @
     ''    }\<newline>'' @
     ''    * {\<newline>'' @
     ''        color: inherit !important;\<newline>'' @
     ''    }\<newline>'' @
     ''    a {\<newline>'' @
     ''        color: #1a73e8 !important;\<newline>'' @
     ''    }\<newline>'' @
     ''    </style>\<newline>'' @
     ''    ''"

definition force_light_theme :: "string \<Rightarrow> string" where
  "force_light_theme h =
     ''<!DOCTYPE html><html><head>'' @ override_css @ ''</head><body>'' @ h @ ''</body></html>''"

text \<open>The replacement text of the link rewrite, and the attributes it adds.\<close>

definition anchor_new :: string where
  \<open>anchor_new = ''<a target="_blank" rel="noopener noreferrer" ''\<close>

definition link_attrs :: string where
  \<open>link_attrs = ''target="_blank" rel="noopener noreferrer" ''\<close>

text \<open>
  \<^verbatim>\<open>
  def sanitize_html_for_preview(html: str) -> str:
      html = html.replace("<a ", '<a target="_blank" rel="noopener noreferrer" ')
      html = force_light_theme(html)
      return html
  \<close>
\<close>

definition sanitize_html_for_preview :: "string \<Rightarrow> string" where
  "sanitize_html_for_preview h = force_light_theme (str_replace h ''<a '' anchor_new)"

text \<open>A fragment with two rewritable anchors and one anchor without attributes.\<close>

definition sample_fragment :: string where
  "sample_fragment = ''<p><a href=x>x</a> <a  id=y>y</a><a>z</a></p>''"

section \<open>Text extractor\<close>

text \<open>
  The uploaded file as \<^verbatim>\<open>extract_resume_text\<close> reads it: the declared media type
  (\<^verbatim>\<open>uploaded_file.type\<close>), the file name (\<^verbatim>\<open>uploaded_file.name\<close>) and the content
  (\<^verbatim>\<open>uploaded_file.read()\<close>).
\<close>

record uploaded_file =
  file_type :: string
  file_name :: string
  file_bytes :: bytes

text \<open>
  The two document libraries are parameters.  A \<open>pdf_reader\<close> stands for
  \<^verbatim>\<open>PdfReader(io.BytesIO(file_bytes)).pages\<close> with \<^verbatim>\<open>extract_text()\<close> taken of each page:
  the pages in document order, each with the text it exposes (\<open>None\<close> when
  \<^verbatim>\<open>extract_text()\<close> returns \<^verbatim>\<open>None\<close>), or the exception the library raises.
  A \<open>docx_reader\<close> stands for \<^verbatim>\<open>Document(bio).paragraphs\<close> with \<^verbatim>\<open>.text\<close> taken of
  each paragraph.
\<close>

type_synonym pdf_reader = "bytes \<Rightarrow> py_error + string option list"
type_synonym docx_reader = "bytes \<Rightarrow> py_error + string list"

text \<open>\<^verbatim>\<open>page.extract_text() or ""\<close>: the text, or the empty string when it is
  \<^verbatim>\<open>None\<close> or empty.\<close>

definition or_empty :: "string option \<Rightarrow> string" where
  "or_empty t = (case t of None \<Rightarrow> '''' | Some x \<Rightarrow> if x = [] then '''' else x)"

text \<open>The loop of \<^verbatim>\<open>extract_text_from_pdf\<close>: one chunk appended per page.\<close>

fun append_chunks :: "string list \<Rightarrow> string option list \<Rightarrow> string list" where
  "append_chunks text_chunks [] = text_chunks"
| "append_chunks text_chunks (page # pages) =
     append_chunks (text_chunks @ [or_empty page]) pages"

definition extract_text_from_pdf :: "pdf_reader \<Rightarrow> bytes \<Rightarrow> py_error + string" where
  "extract_text_from_pdf reader bs =
     (case reader bs of
        Inl e \<Rightarrow> Inl e
      | Inr pages \<Rightarrow> Inr (str_join ''\<newline>'' (append_chunks [] pages)))"

definition extract_text_from_docx :: "docx_reader \<Rightarrow> bytes \<Rightarrow> py_error + string" where
  "extract_text_from_docx reader bs =
     (case reader bs of
        Inl e \<Rightarrow> Inl e
      | Inr paragraphs \<Rightarrow> Inr (str_join ''\<newline>'' paragraphs))"

text \<open>
  \<^verbatim>\<open>
  def extract_resume_text(uploaded_file) -> str:
      if uploaded_file is None:
          return ""
      file_bytes = uploaded_file.read()
      if uploaded_file.type == "application/pdf" or uploaded_file.name.lower().endswith(".pdf"):
          return extract_text_from_pdf(file_bytes)
      if (uploaded_file.type in [".../vnd.openxmlformats-officedocument.wordprocessingml.document",
                                 "application/msword"]
              or uploaded_file.name.lower().endswith(".docx")):
          return extract_text_from_docx(file_bytes)
      return ""
  \<close>
\<close>

definition extract_resume_text ::
    "pdf_reader \<Rightarrow> docx_reader \<Rightarrow> uploaded_file option \<Rightarrow> py_error + string" where
  "extract_resume_text pdf docx uploaded =
     (case uploaded of
        None \<Rightarrow> Inr ''''
      | Some f \<Rightarrow>
          if file_type f = ''application/pdf'' \<or> str_endswith (str_lower (file_name f)) ''.pdf''
          then extract_text_from_pdf pdf (file_bytes f)
          else if file_type f \<in> set
                    [''application/vnd.openxmlformats-officedocument.wordprocessingml.document'',
                     ''application/msword'']
                  \<or> str_endswith (str_lower (file_name f)) ''.docx''
          then extract_text_from_docx docx (file_bytes f)
          else Inr '''')"

text \<open>Concrete readers and files for the examples: a PDF of two pages, the second
  without a text layer, and a DOCX of one paragraph.\<close>

definition sample_pdf_reader :: pdf_reader where
  "sample_pdf_reader bs = Inr [Some ''PDF page 1'', None]"

definition sample_docx_reader :: docx_reader where
  "sample_docx_reader bs = Inr [''DOCX paragraph'']"

definition docx_typed_pdf_named :: uploaded_file where
  "docx_typed_pdf_named =
     \<lparr>file_type = ''application/vnd.openxmlformats-officedocument.wordprocessingml.document'',
      file_name = ''resume.pdf'', file_bytes = []\<rparr>"

definition msword_upper_pdf :: uploaded_file where
  "msword_upper_pdf = \<lparr>file_type = ''application/msword'', file_name = ''CV.PDF'', file_bytes = []\<rparr>"

definition msword_file :: uploaded_file where
  "msword_file = \<lparr>file_type = ''application/msword'', file_name = ''Resume.DOC'', file_bytes = []\<rparr>"

section \<open>Archive packager\<close>

text \<open>
  \<^verbatim>\<open>data.encode("utf-8")\<close>, which \<^verbatim>\<open>ZipFile.writestr\<close> applies to a \<^verbatim>\<open>str\<close>: a code
  point below 128 is one byte, a code point from 128 to 255 is two bytes.
\<close>

definition utf8_char :: "char \<Rightarrow> bytes" where
  "utf8_char c =
     (let n = (of_char c :: nat)
      in if n < 128 then [of_nat n]
         else [of_nat (192 + n div 64), of_nat (128 + n mod 64)])"

definition str_encode_utf8 :: "string \<Rightarrow> bytes" where
  "str_encode_utf8 s = concat (map utf8_char s)"

text \<open>
  The decoder of the same range, for reading entries back: \<open>None\<close> on bytes that are
  not the UTF-8 form of code points below 256.
\<close>

fun bytes_decode_utf8 :: "bytes \<Rightarrow> string option" where
  "bytes_decode_utf8 [] = Some []"
| "bytes_decode_utf8 [b] =
     (if unat b < 128 then Some [char_of (unat b)] else None)"
| "bytes_decode_utf8 (b # b2 # bs) =
     (if unat b < 128 then map_option ((#) (char_of (unat b))) (bytes_decode_utf8 (b2 # bs))
      else if (unat b = 194 \<or> unat b = 195) \<and> 128 \<le> unat b2 \<and> unat b2 < 192
      then map_option ((#) (char_of ((unat b - 192) * 64 + (unat b2 - 128))))
             (bytes_decode_utf8 bs)
      else None)"

text \<open>
  The \<^verbatim>\<open>zipfile\<close> library is outside the repository.  An archive under construction
  (\<^verbatim>\<open>ZipFile(mem_zip, mode="w")\<close>) is the list of the entries written so far, each a
  name and its content bytes; \<^verbatim>\<open>writestr\<close> adds one entry at the end, encoding a
  \<^verbatim>\<open>str\<close> as UTF-8.  The byte layout the library gives an archive is the parameter
  \<open>zip_format\<close> of \<open>create_zip_bytes\<close>.
\<close>

type_synonym zip_entry = "string \<times> bytes"
type_synonym zip_format = "zip_entry list \<Rightarrow> bytes"

definition writestr :: "zip_entry list \<Rightarrow> string \<Rightarrow> string \<Rightarrow> zip_entry list" where
  "writestr zf arcname data = zf @ [(arcname, str_encode_utf8 data)]"

text \<open>\<^verbatim>\<open>io.BytesIO\<close>: a buffer and a position; writing overwrites from the position
  (padding with zero bytes when the position lies beyond the end), reading returns
  what lies from the position on.\<close>

record bytes_io =
  buffer :: bytes
  position :: nat

definition bytes_io_new :: bytes_io where
  "bytes_io_new = \<lparr>buffer = [], position = 0\<rparr>"

definition bytes_io_write :: "bytes_io \<Rightarrow> bytes \<Rightarrow> bytes_io" where
  "bytes_io_write f bs =
     \<lparr>buffer = take (position f) (buffer f) @ replicate (position f - length (buffer f)) 0
               @ bs @ drop (position f + length bs) (buffer f),
      position = position f + length bs\<rparr>"

definition bytes_io_seek :: "bytes_io \<Rightarrow> nat \<Rightarrow> bytes_io" where
  "bytes_io_seek f pos = f\<lparr>position := pos\<rparr>"

definition bytes_io_read :: "bytes_io \<Rightarrow> bytes" where
  "bytes_io_read f = drop (position f) (buffer f)"

text \<open>Leaving the \<^verbatim>\<open>with\<close> block closes the archive: its bytes are in the stream.\<close>

definition zipfile_close :: "zip_format \<Rightarrow> zip_entry list \<Rightarrow> bytes_io \<Rightarrow> bytes_io" where
  "zipfile_close zip_format zf f = bytes_io_write f (zip_format zf)"

text \<open>
  \<^verbatim>\<open>
  def create_zip_bytes(html: str, css: str, js: str) -> bytes:
      mem_zip = io.BytesIO()
      with zipfile.ZipFile(mem_zip, mode="w") as zf:
          zf.writestr("index.html", html)
          zf.writestr("style.css", css)
          zf.writestr("script.js", js)
      mem_zip.seek(0)
      return mem_zip.read()
  \<close>
\<close>

definition create_zip_bytes :: "zip_format \<Rightarrow> string \<Rightarrow> string \<Rightarrow> string \<Rightarrow> bytes" where
  "create_zip_bytes zip_format html_text css_text js_text =
     (let mem_zip = bytes_io_new;
          zf = [];
          zf = writestr zf ''index.html'' html_text;
          zf = writestr zf ''style.css'' css_text;
          zf = writestr zf ''script.js'' js_text;
          mem_zip = zipfile_close zip_format zf mem_zip;
          mem_zip = bytes_io_seek mem_zip 0
      in bytes_io_read mem_zip)"

text \<open>
  Modelled from the spec: the archive writer and reader of the \<^verbatim>\<open>zipfile\<close> library,
  which the repository calls and does not contain.  The specification has the archive
  as a container holding the entries under their fixed names, each with its content
  verbatim as bytes, such that decompressing the archive reproduces the content
  byte for byte; the code asks for no compression (the entries are stored).  The
  model is such a container: every field is stored behind its length, the length in
  unary (so that no content is too long for it); an archive is the number of entries
  and then, for each entry, the name in UTF-8 and the content verbatim.
\<close>

definition put_length :: "nat \<Rightarrow> bytes" where
  "put_length n = replicate n 1 @ [0]"

fun get_length :: "bytes \<Rightarrow> (nat \<times> bytes) option" where
  "get_length [] = None"
| "get_length (b # bs) =
     (if b = 0 then Some (0, bs)
      else if b = 1 then (case get_length bs of None \<Rightarrow> None | Some (n, r) \<Rightarrow> Some (Suc n, r))
      else None)"

definition put_field :: "bytes \<Rightarrow> bytes" where
  "put_field xs = put_length (length xs) @ xs"

definition get_field :: "bytes \<Rightarrow> (bytes \<times> bytes) option" where
  "get_field bs =
     (case get_length bs of
        None \<Rightarrow> None
      | Some (n, r) \<Rightarrow> if n \<le> length r then Some (take n r, drop n r) else None)"

fun store_entries :: "zip_entry list \<Rightarrow> bytes" where
  "store_entries [] = []"
| "store_entries ((name, data) # es) =
     put_field (str_encode_utf8 name) @ put_field data @ store_entries es"

definition store_archive :: zip_format where
  "store_archive es = put_length (length es) @ store_entries es"

fun get_entries :: "nat \<Rightarrow> bytes \<Rightarrow> zip_entry list option" where
  "get_entries 0 bs = (if bs = [] then Some [] else None)"
| "get_entries (Suc k) bs =
     (case get_field bs of
        None \<Rightarrow> None
      | Some (nm, r) \<Rightarrow>
          (case bytes_decode_utf8 nm of
             None \<Rightarrow> None
           | Some name \<Rightarrow>
               (case get_field r of
                  None \<Rightarrow> None
                | Some (data, r') \<Rightarrow>
                    (case get_entries k r' of
                       None \<Rightarrow> None
                     | Some es \<Rightarrow> Some ((name, data) # es)))))"

definition read_archive :: "bytes \<Rightarrow> zip_entry list option" where
  "read_archive bs =
     (case get_length bs of None \<Rightarrow> None | Some (k, r) \<Rightarrow> get_entries k r)"

subsection \<open>Texts of any code point\<close>

text \<open>
  A \<^typ>\<open>string\<close> holds code points below 256 only, and those always encode.  For the
  packager a \<^verbatim>\<open>str\<close> is modelled a second time in full, as the list of its code
  points (each below 0x110000): \<^verbatim>\<open>data.encode("utf-8")\<close> then has its forms of one to
  four bytes, and raises \<^verbatim>\<open>UnicodeEncodeError\<close> on a surrogate code point
  (0xD800..0xDFFF).
\<close>

type_synonym unicode = "nat list"

definition is_surrogate :: "nat \<Rightarrow> bool" where
  "is_surrogate cp = (0xD800 \<le> cp \<and> cp \<le> 0xDFFF)"

definition utf8_code_point :: "nat \<Rightarrow> bytes" where
  "utf8_code_point cp =
     (if cp < 0x80 then [of_nat cp]
      else if cp < 0x800 then [of_nat (0xC0 + cp div 64), of_nat (0x80 + cp mod 64)]
      else if cp < 0x10000
      then [of_nat (0xE0 + cp div 4096), of_nat (0x80 + cp div 64 mod 64),
            of_nat (0x80 + cp mod 64)]
      else [of_nat (0xF0 + cp div 262144), of_nat (0x80 + cp div 4096 mod 64),
            of_nat (0x80 + cp div 64 mod 64), of_nat (0x80 + cp mod 64)])"

definition utf8_bytes :: "unicode \<Rightarrow> bytes" where
  "utf8_bytes t = concat (map utf8_code_point t)"

definition text_encode_utf8 :: "unicode \<Rightarrow> py_error + bytes" where
  "text_encode_utf8 t =
     (if list_ex is_surrogate t then Inl UnicodeEncodeError else Inr (utf8_bytes t))"

text \<open>
  The strict decoder, for reading contents back: \<open>None\<close> on bytes that are not the
  UTF-8 form of a text (a stray or missing continuation byte, an overlong form, a
  surrogate, a value from 0x110000 on).
\<close>

definition continuation :: "8 word \<Rightarrow> nat option" where
  "continuation b = (if 0x80 \<le> unat b \<and> unat b < 0xC0 then Some (unat b - 0x80) else None)"

fun text_decode_utf8 :: "bytes \<Rightarrow> unicode option" where
  "text_decode_utf8 [] = Some []"
| "text_decode_utf8 (b # bs) =
     (let n = unat b
      in if n < 0x80 then map_option ((#) n) (text_decode_utf8 bs)
         else if 0xC2 \<le> n \<and> n < 0xE0
         then (case bs of
                 b1 # r \<Rightarrow>
                   (case continuation b1 of
                      Some x1 \<Rightarrow> map_option ((#) ((n - 0xC0) * 64 + x1)) (text_decode_utf8 r)
                    | None \<Rightarrow> None)
               | _ \<Rightarrow> None)
         else if 0xE0 \<le> n \<and> n < 0xF0
         then (case bs of
                 b1 # b2 # r \<Rightarrow>
                   (case (continuation b1, continuation b2) of
                      (Some x1, Some x2) \<Rightarrow>
                        (let cp = (n - 0xE0) * 4096 + x1 * 64 + x2
                         in if 0x800 \<le> cp \<and> \<not> is_surrogate cp
                            then map_option ((#) cp) (text_decode_utf8 r) else None)
                    | _ \<Rightarrow> None)
               | _ \<Rightarrow> None)
         else if 0xF0 \<le> n \<and> n < 0xF5
         then (case bs of
                 b1 # b2 # b3 # r \<Rightarrow>
                   (case (continuation b1, continuation b2, continuation b3) of
                      (Some x1, Some x2, Some x3) \<Rightarrow>
                        (let cp = (n - 0xF0) * 262144 + x1 * 4096 + x2 * 64 + x3
                         in if 0x10000 \<le> cp \<and> cp < 0x110000
                            then map_option ((#) cp) (text_decode_utf8 r) else None)
                    | _ \<Rightarrow> None)
               | _ \<Rightarrow> None)
         else None)"

text \<open>
  \<^verbatim>\<open>writestr\<close> and \<^verbatim>\<open>create_zip_bytes\<close> on such texts.  An exception raised inside the
  \<^verbatim>\<open>with\<close> block leaves the function at once: nothing is returned.
\<close>

definition writestr_unicode ::
    "zip_entry list \<Rightarrow> string \<Rightarrow> unicode \<Rightarrow> py_error + zip_entry list" where
  "writestr_unicode zf arcname data =
     (case text_encode_utf8 data of
        Inl e \<Rightarrow> Inl e
      | Inr bs \<Rightarrow> Inr (zf @ [(arcname, bs)]))"

definition create_zip_bytes_unicode ::
    "zip_format \<Rightarrow> unicode \<Rightarrow> unicode \<Rightarrow> unicode \<Rightarrow> py_error + bytes" where
  "create_zip_bytes_unicode zip_format html_text css_text js_text =
     (let mem_zip = bytes_io_new;
          zf = []
      in case writestr_unicode zf ''index.html'' html_text of
           Inl e \<Rightarrow> Inl e
         | Inr zf \<Rightarrow>
             (case writestr_unicode zf ''style.css'' css_text of
                Inl e \<Rightarrow> Inl e
              | Inr zf \<Rightarrow>
                  (case writestr_unicode zf ''script.js'' js_text of
                     Inl e \<Rightarrow> Inl e
                   | Inr zf \<Rightarrow>
                       (let mem_zip = zipfile_close zip_format zf mem_zip;
                            mem_zip = bytes_io_seek mem_zip 0
                        in Inr (bytes_io_read mem_zip)))))"

text \<open>A text with forms of one, two, three and four bytes (the last three code
  points are e acute, the euro sign and an emoji).\<close>

definition sample_unicode :: unicode where
  "sample_unicode = [0x3C, 0x70, 0x3E, 0xE9, 0x20AC, 0x1F600]"

section \<open>Session state and the script run\<close>

text \<open>\<^verbatim>\<open>st.session_state\<close>, with the defaults of lines 191 to 200.  (The key
  \<^verbatim>\<open>spec_editor\<close> of the text area is never read by the script and is left out.)\<close>

record session_state =
  spec_text :: string
  html_code :: string
  css_code :: string
  js_code :: string
  zip_bytes :: "bytes option"

definition init_session :: session_state where
  "init_session =
     \<lparr>spec_text = '''', html_code = '''', css_code = '''', js_code = '''', zip_bytes = None\<rparr>"

text \<open>
  What one run of the script gets from outside: the services it calls (the two
  document libraries and the model, once for each of the two prompts: a function
  from the user text to the response content, or the exception raised), and the
  widgets (the uploaded file and the two buttons).
\<close>

record services =
  pdf_lib :: pdf_reader
  docx_lib :: docx_reader
  llm_spec :: "string \<Rightarrow> py_error + string"
  llm_site :: "string \<Rightarrow> py_error + string"

record widgets =
  uploaded_resume :: "uploaded_file option"
  generate_spec_btn :: bool
  generate_site_btn :: bool

definition build_spec_from_resume ::
    "(string \<Rightarrow> py_error + string) \<Rightarrow> string \<Rightarrow> py_error + string" where
  "build_spec_from_resume llm resume_text = llm resume_text"

text \<open>
  Lines 221 to 232, the handler of the first button:
  \<^verbatim>\<open>
  if generate_spec_btn:
      if not uploaded_resume:
          st.error("Please upload a resume first.")
      else:
          resume_text = extract_resume_text(uploaded_resume)
          if not resume_text.strip():
              st.error("Could not extract text from the uploaded file. Check the format.")
          else:
              spec = build_spec_from_resume(resume_text)
              st.session_state.spec_text = spec
  \<close>
\<close>

definition on_generate_spec :: "services \<Rightarrow> widgets \<Rightarrow> session_state \<Rightarrow> py_error + session_state" where
  "on_generate_spec sv w st =
     (case uploaded_resume w of
        None \<Rightarrow> Inr st
      | Some f \<Rightarrow>
          (case extract_resume_text (pdf_lib sv) (docx_lib sv) (Some f) of
             Inl e \<Rightarrow> Inl e
           | Inr resume_text \<Rightarrow>
               if str_strip resume_text = [] then Inr st
               else (case build_spec_from_resume (llm_spec sv) resume_text of
                       Inl e \<Rightarrow> Inl e
                     | Inr spec \<Rightarrow> Inr (st\<lparr>spec_text := spec\<rparr>))))"

text \<open>
  Lines 248 to 255: the three segments are stored, and the archive is built behind
  the test \<^verbatim>\<open>if website["html"] and website["css"] and website["js"]\<close> (a string is
  true when it is not empty).  The second component records the calls made to
  \<^verbatim>\<open>create_zip_bytes\<close>, as the list of their arguments.
  \<^verbatim>\<open>
  st.session_state.html_code = website["html"]
  st.session_state.css_code = website["css"]
  st.session_state.js_code = website["js"]
  if website["html"] and website["css"] and website["js"]:
      st.session_state.zip_bytes = create_zip_bytes(
          website["html"], website["css"], website["js"])
  \<close>
\<close>

definition store_website ::
    "zip_format \<Rightarrow> website \<Rightarrow> session_state \<Rightarrow> session_state \<times> (string \<times> string \<times> string) list" where
  "store_website zip_format w st =
     (let st = st\<lparr>html_code := html w\<rparr>;
          st = st\<lparr>css_code := css w\<rparr>;
          st = st\<lparr>js_code := js w\<rparr>
      in if html w \<noteq> [] \<and> css w \<noteq> [] \<and> js w \<noteq> []
         then (st\<lparr>zip_bytes := Some (create_zip_bytes zip_format (html w) (css w) (js w))\<rparr>,
               [(html w, css w, js w)])
         else (st, []))"

text \<open>Lines 245 to 256, the handler of the second button.\<close>

definition on_generate_site ::
    "zip_format \<Rightarrow> services \<Rightarrow> session_state
       \<Rightarrow> py_error + session_state \<times> (string \<times> string \<times> string) list" where
  "on_generate_site zip_format sv st =
     (case build_website_from_spec (llm_site sv) (spec_text st) of
        Inl e \<Rightarrow> Inl e
      | Inr website \<Rightarrow> Inr (store_website zip_format website st))"

text \<open>
  One run of the script on a session: the left column from top to bottom.  The second
  button exists only while the specification text is not empty.  An exception ends
  the run and leaves the session as it stood when it was raised.  The result is the
  session after the run and the exception, if any.
\<close>

definition site_step ::
    "zip_format \<Rightarrow> services \<Rightarrow> widgets \<Rightarrow> session_state \<Rightarrow> session_state \<times> py_error option" where
  "site_step zip_format sv w st =
     (if spec_text st \<noteq> [] \<and> generate_site_btn w
      then (case on_generate_site zip_format sv st of
              Inl e \<Rightarrow> (st, Some e)
            | Inr (st', calls) \<Rightarrow> (st', None))
      else (st, None))"

definition script_run ::
    "zip_format \<Rightarrow> services \<Rightarrow> widgets \<Rightarrow> session_state \<Rightarrow> session_state \<times> py_error option" where
  "script_run zip_format sv w st =
     (if generate_spec_btn w
      then (case on_generate_spec sv w st of
              Inl e \<Rightarrow> (st, Some e)
            | Inr st' \<Rightarrow> site_step zip_format sv w st')
      else site_step zip_format sv w st)"


definition download_data :: "session_state \<Rightarrow> bytes option" where
  "download_data st =
     (case zip_bytes st of None \<Rightarrow> None | Some b \<Rightarrow> if b \<noteq> [] then Some b else None)"

text \<open>The sessions that runs of the script can reach from a fresh session, whatever
  the services answer and whatever the user does.\<close>

inductive reachable :: "zip_format \<Rightarrow> session_state \<Rightarrow> bool" for zip_format where
  fresh: "reachable zip_format init_session"
| run: "reachable zip_format st \<Longrightarrow> reachable zip_format (fst (script_run zip_format sv w st))"

text \<open>Concrete services and widgets for the examples: the model answers the site
  prompt with a given response.\<close>

definition sample_services :: "string \<Rightarrow> services" where
  "sample_services response =
     \<lparr>pdf_lib = sample_pdf_reader, docx_lib = sample_docx_reader,
      llm_spec = (\<lambda>resume_text. Inr ''Name: Jane Doe''),
      llm_site = (\<lambda>spec. Inr response)\<rparr>"

definition click_generate_spec :: widgets where
  "click_generate_spec =
     \<lparr>uploaded_resume = Some docx_typed_pdf_named, generate_spec_btn = True,
      generate_site_btn = False\<rparr>"

definition click_generate_site :: widgets where
  "click_generate_site =
     \<lparr>uploaded_resume = Some docx_typed_pdf_named, generate_spec_btn = False,
      generate_site_btn = True\<rparr>"

text \<open>The invariant of the archive bytes in the session: none yet, or the archive
  of three texts none of which is empty.\<close>

definition zip_bytes_ok :: "zip_format \<Rightarrow> session_state \<Rightarrow> bool" where
  "zip_bytes_ok zip_format st =
     (zip_bytes st = None
      \<or> (\<exists>h c j. h \<noteq> [] \<and> c \<noteq> [] \<and> j \<noteq> []
            \<and> zip_bytes st = Some (create_zip_bytes zip_format h c j)))"

section \<open>Properties of the string operations\<close>

lemma find_first_SomeD:
  "find_first sub s = Some i \<Longrightarrow> i + length sub \<le> length s \<and> prefix sub (drop i s)"
proof (induction s arbitrary: i)
  case Nil
  then show ?case by (auto split: if_splits)
next
  case (Cons c cs)
  show ?case
  proof (cases "prefix sub (c # cs)")
    case True
    with Cons.prems show ?thesis by (auto dest: prefix_length_le)
  next
    case False
    with Cons.prems obtain j where "find_first sub cs = Some j" "i = Suc j"
      by auto
    with Cons.IH [of j] show ?thesis by simp
  qed
qed

lemma find_first_decomp:
  assumes "find_first sub s = Some i"
  shows "s = take i s @ sub @ drop (i + length sub) s"
proof -
  from find_first_SomeD [OF assms] obtain r where "drop i s = sub @ r"
    by (auto simp: prefix_def)
  then have "drop (i + length sub) s = r"
    by (metis add.commute append_eq_conv_conj drop_drop)
  with \<open>drop i s = sub @ r\<close> show ?thesis
    by (metis append_take_drop_id)
qed

lemma find_first_least:
  "find_first sub s = Some i \<Longrightarrow> j < i \<Longrightarrow> \<not> prefix sub (drop j s)"
proof (induction s arbitrary: i j)
  case Nil
  then show ?case by (auto split: if_splits)
next
  case (Cons c cs)
  show ?case
  proof (cases "prefix sub (c # cs)")
    case True
    with Cons.prems show ?thesis by auto
  next
    case False
    with Cons.prems obtain k where k: "find_first sub cs = Some k" "i = Suc k"
      by auto
    show ?thesis
    proof (cases j)
      case 0
      with False show ?thesis by simp
    next
      case (Suc j')
      with Cons.IH [OF k(1), of j'] Cons.prems k show ?thesis by simp
    qed
  qed
qed

lemma find_first_None_iff: "find_first sub s = None \<longleftrightarrow> \<not> sublist sub s"
  by (induction s) (auto simp: sublist_Cons_right)

lemma sublist_iff_prefix_drop: "sublist sub s \<longleftrightarrow> (\<exists>j\<le>length s. prefix sub (drop j s))"
proof
  assume "sublist sub s"
  then obtain ps ss where "s = ps @ sub @ ss" by (auto simp: sublist_def)
  then have "prefix sub (drop (length ps) s)" "length ps \<le> length s" by auto
  then show "\<exists>j\<le>length s. prefix sub (drop j s)" by blast
next
  assume "\<exists>j\<le>length s. prefix sub (drop j s)"
  then obtain j where "prefix sub (drop j s)" by blast
  then show "sublist sub s"
    by (meson prefix_imp_sublist sublist_drop sublist_order.order_trans)
qed

lemma find_first_no_sublist_take:
  assumes "find_first sub s = Some i" "sub \<noteq> []"
  shows "\<not> sublist sub (take i s @ butlast sub)"
proof
  assume "sublist sub (take i s @ butlast sub)"
  then obtain ps ss where d: "take i s @ butlast sub = ps @ sub @ ss"
    by (auto simp: sublist_def)
  have len: "i + length sub \<le> length s" using find_first_SomeD [OF assms(1)] by simp
  then have "length (take i s @ butlast sub) = i + length sub - 1"
    using assms(2) by (cases sub) auto
  with d have "length ps + length sub + length ss = i + length sub - 1"
    by (metis length_append add.assoc)
  with assms(2) have lt: "length ps < i" by (cases sub) auto
  have s: "s = take i s @ sub @ drop (i + length sub) s"
    by (rule find_first_decomp [OF assms(1)])
  have "sub = butlast sub @ [last sub]" using assms(2) by simp
  then have "s = (take i s @ butlast sub) @ [last sub] @ drop (i + length sub) s"
    using s by (metis append.assoc)
  then have "s = ps @ sub @ (ss @ [last sub] @ drop (i + length sub) s)"
    using d by simp
  then have "prefix sub (drop (length ps) s)"
    by (metis append_eq_conv_conj prefixI)
  with find_first_least [OF assms(1) lt] show False by simp
qed

lemma find_first_append:
  assumes "sub \<noteq> []" "\<not> sublist sub (p @ butlast sub)"
  shows "find_first sub (p @ sub @ r) = Some (length p)"
  using assms(2)
proof (induction p)
  case Nil
  from assms(1) show ?case by (cases sub) auto
next
  case (Cons c p)
  have np: "\<not> prefix sub ((c # p) @ sub @ r)"
  proof
    assume pr: "prefix sub ((c # p) @ sub @ r)"
    have "sub = butlast sub @ [last sub]" using assms(1) by simp
    then have e: "(c # p) @ sub @ r = ((c # p) @ butlast sub) @ ([last sub] @ r)"
      by (metis append.assoc)
    have "length sub \<le> length ((c # p) @ butlast sub)" by simp
    with pr e have "prefix sub ((c # p) @ butlast sub)"
      by (metis prefix_length_prefix prefixI)
    with Cons.prems show False by (meson prefix_imp_sublist)
  qed
  have "\<not> sublist sub (p @ butlast sub)"
    using Cons.prems by (auto simp: sublist_Cons_right)
  with Cons.IH have "find_first sub (p @ sub @ r) = Some (length p)" by simp
  with np show ?case by simp
qed

section \<open>Properties of the delimiter parser\<close>

lemma split_pieces_two:
  assumes "m \<noteq> []" "\<not> sublist m (p @ butlast m)" "\<not> sublist m (S @ butlast m)"
  shows "split_pieces (p @ m @ S @ m @ q) m = p # S # split_pieces q m"
proof -
  have 1: "find_first m (p @ m @ S @ m @ q) = Some (length p)"
    using assms(1,2) by (rule find_first_append)
  have 2: "find_first m (S @ m @ q) = Some (length S)"
    using assms(1,3) by (rule find_first_append)
  have "split_pieces (p @ m @ S @ m @ q) m = p # split_pieces (S @ m @ q) m"
    using assms(1) 1 by (subst split_pieces.simps) simp
  also have "split_pieces (S @ m @ q) m = S # split_pieces q m"
    using assms(1) 2 by (subst split_pieces.simps) simp
  finally show ?thesis .
qed

lemma split_pieces_nonempty: "split_pieces s sep \<noteq> []"
  by (subst split_pieces.simps) (simp split: option.splits)

lemma extract_between_well_formed:
  assumes "m \<noteq> []" "raw = p @ m @ S @ m @ q"
    "\<not> sublist m (p @ butlast m)" "\<not> sublist m (S @ butlast m)"
  shows "extract_between m raw = Inr (str_strip S)"
proof -
  have "split_pieces raw m = p # S # split_pieces q m"
    unfolding assms(2) using assms(1,3,4) by (rule split_pieces_two)
  moreover have "split_pieces q m \<noteq> []" by (rule split_pieces_nonempty)
  ultimately show ?thesis
    using assms(1)
    by (cases "split_pieces q m") (simp_all add: extract_between_def str_split_def py_index_def)
qed

text \<open>
  Claim C1.  Let the raw response contain each of the three markers at least twice:
  for each marker \<open>m\<close> the response is \<open>p @ m @ S @ m @ q\<close>, where the first
  \<open>m\<close> shown is the first occurrence of the marker (no occurrence starts inside
  \<open>p\<close>) and the second \<open>m\<close> shown is the next one (no occurrence starts inside the
  segment \<open>S\<close>; in particular \<open>S\<close> does not contain the marker).  Then the parser
  returns, without raising, exactly the three trimmed segments in the fields html,
  css and js; and that is what \<^verbatim>\<open>build_website_from_spec\<close> returns when the model
  answers with this response.
\<close>

theorem delimiter_parse_well_formed:
  assumes "raw = p1 @ ''--html--'' @ S1 @ ''--html--'' @ q1"
    and "\<not> sublist ''--html--'' (p1 @ butlast ''--html--'')"
    and "\<not> sublist ''--html--'' (S1 @ butlast ''--html--'')"
    and "raw = p2 @ ''--css--'' @ S2 @ ''--css--'' @ q2"
    and "\<not> sublist ''--css--'' (p2 @ butlast ''--css--'')"
    and "\<not> sublist ''--css--'' (S2 @ butlast ''--css--'')"
    and "raw = p3 @ ''--js--'' @ S3 @ ''--js--'' @ q3"
    and "\<not> sublist ''--js--'' (p3 @ butlast ''--js--'')"
    and "\<not> sublist ''--js--'' (S3 @ butlast ''--js--'')"
  shows "website_of_response raw
       = Inr \<lparr>html = str_strip S1, css = str_strip S2, js = str_strip S3\<rparr>
     \<and> (llm spec = Inr raw \<longrightarrow>
          build_website_from_spec llm spec
            = Inr \<lparr>html = str_strip S1, css = str_strip S2, js = str_strip S3\<rparr>)"
proof -
  have h: "extract_between ''--html--'' raw = Inr (str_strip S1)"
    using assms(1,2,3) by (intro extract_between_well_formed) simp_all
  have c: "extract_between ''--css--'' raw = Inr (str_strip S2)"
    using assms(4,5,6) by (intro extract_between_well_formed) simp_all
  have j: "extract_between ''--js--'' raw = Inr (str_strip S3)"
    using assms(7,8,9) by (intro extract_between_well_formed) simp_all
  show ?thesis
    by (simp add: website_of_response_def build_website_from_spec_def h c j)
qed

theorem delimiter_parse_well_formed_witness:
  "website_of_response sample_response
     = Inr \<lparr>html = ''<p>--hi--</p>'', css = ''p { color: red; }'', js = ''let x = 1;''\<rparr>
   \<and> build_website_from_spec (llm_site (sample_services sample_response)) ''Name: Jane Doe''
     = Inr \<lparr>html = ''<p>--hi--</p>'', css = ''p { color: red; }'', js = ''let x = 1;''\<rparr>"
  using delimiter_parse_well_formed
    [where llm = "llm_site (sample_services sample_response)" and spec = "''Name: Jane Doe''",
     of sample_response
        "''Sure!\<newline>''" "''\<newline><p>--hi--</p>\<newline>''"
        "''\<newline>--css--\<newline>p { color: red; }\<newline>--css--\<newline>--js--\<newline>let x = 1;\<newline>--js--\<newline>''"
        "''Sure!\<newline>--html--\<newline><p>--hi--</p>\<newline>--html--\<newline>''" "''\<newline>p { color: red; }\<newline>''"
        "''\<newline>--js--\<newline>let x = 1;\<newline>--js--\<newline>''"
        "''Sure!\<newline>--html--\<newline><p>--hi--</p>\<newline>--html--\<newline>--css--\<newline>p { color: red; }\<newline>--css--\<newline>''"
        "''\<newline>let x = 1;\<newline>''" "''\<newline>''"]
  by (simp add: sample_response_def sublist_code str_strip_def py_isspace_def split_pieces.simps
      sample_services_def)

lemma extract_between_segment_spec:
  assumes "m \<noteq> []"
  shows "extract_between m raw = Inr (segment_spec m raw)"
proof (cases "find_first m raw")
  case None
  then have "split_pieces raw m = [raw]"
    using assms by (subst split_pieces.simps) simp
  with None show ?thesis using assms
    by (simp add: extract_between_def str_split_def segment_spec_def)
next
  case (Some a)
  let ?r = "drop (a + length m) raw"
  have 1: "split_pieces raw m = take a raw # split_pieces ?r m"
    using assms Some by (subst split_pieces.simps) simp
  show ?thesis
  proof (cases "find_first m ?r")
    case None
    then have "split_pieces ?r m = [?r]"
      using assms by (subst split_pieces.simps) simp
    with 1 Some None assms show ?thesis
      by (simp add: extract_between_def str_split_def segment_spec_def)
  next
    case (Some k)
    let ?q = "drop (k + length m) ?r"
    have 2: "split_pieces ?r m = take k ?r # split_pieces ?q m"
      using assms Some by (subst split_pieces.simps) simp
    obtain x xs where "split_pieces ?q m = x # xs"
      using split_pieces_nonempty [of ?q m] by (cases "split_pieces ?q m") auto
    with 1 2 Some \<open>find_first m raw = Some a\<close> assms show ?thesis
      by (simp add: extract_between_def str_split_def segment_spec_def py_index_def)
  qed
qed

lemma short_split_segment_spec:
  assumes "m \<noteq> []" "length (split_pieces raw m) < 3"
  shows "segment_spec m raw = ''''"
  using extract_between_segment_spec [OF assms(1), of raw] assms
  by (simp add: extract_between_def str_split_def)

text \<open>
  Claim C3.  On every raw response the parser returns a website and raises nothing.
  Each field is the segment of its own marker, computed from the full text alone
  (\<open>segment_spec\<close> looks at one marker only, so a missing or unclosed marker of one
  segment does not touch the value of another); and whenever splitting the response
  on a marker yields fewer than 3 pieces, that marker's segment is the empty string.
  \<^verbatim>\<open>build_website_from_spec\<close> returns the parser's result whenever the model call
  returns.
\<close>

theorem delimiter_parse_total:
  "website_of_response raw
     = Inr \<lparr>html = segment_spec ''--html--'' raw,
            css = segment_spec ''--css--'' raw,
            js = segment_spec ''--js--'' raw\<rparr>
   \<and> (length (split_pieces raw ''--html--'') < 3 \<longrightarrow> segment_spec ''--html--'' raw = '''')
   \<and> (length (split_pieces raw ''--css--'') < 3 \<longrightarrow> segment_spec ''--css--'' raw = '''')
   \<and> (length (split_pieces raw ''--js--'') < 3 \<longrightarrow> segment_spec ''--js--'' raw = '''')
   \<and> (llm spec = Inr raw \<longrightarrow>
        build_website_from_spec llm spec = website_of_response raw)"
  by (simp add: website_of_response_def build_website_from_spec_def extract_between_segment_spec
      short_split_segment_spec)

theorem delimiter_parse_total_witness:
  "website_of_response partial_response = Inr \<lparr>html = ''<p>hi</p>'', css = '''', js = ''''\<rparr>
   \<and> length (split_pieces partial_response ''--html--'') = 3
   \<and> length (split_pieces partial_response ''--css--'') = 2
   \<and> length (split_pieces partial_response ''--js--'') = 2
   \<and> build_website_from_spec (llm_site (sample_services partial_response)) ''Name: Jane Doe''
     = Inr \<lparr>html = ''<p>hi</p>'', css = '''', js = ''''\<rparr>"
  using delimiter_parse_total
    [of partial_response "llm_site (sample_services partial_response)" "''Name: Jane Doe''"]
  by (simp add: partial_response_def segment_spec_def str_strip_def py_isspace_def split_pieces.simps
      sample_services_def)

section \<open>Properties of split, join and replace\<close>

lemma str_join_Cons: "ys \<noteq> [] \<Longrightarrow> str_join sep (x # ys) = x @ sep @ str_join sep ys"
  by (cases ys) simp_all

lemma str_join_split_pieces: "sep \<noteq> [] \<Longrightarrow> str_join sep (split_pieces s sep) = s"
proof (induction s sep rule: split_pieces.induct)
  case (1 s sep)
  show ?case
  proof (cases "find_first sep s")
    case None
    with "1.prems" show ?thesis by (subst split_pieces.simps) simp
  next
    case (Some i)
    let ?r = "drop (i + length sep) s"
    have "split_pieces s sep = take i s # split_pieces ?r sep"
      using "1.prems" Some by (subst split_pieces.simps) simp
    then have "str_join sep (split_pieces s sep) = take i s @ sep @ str_join sep (split_pieces ?r sep)"
      by (simp only: str_join_Cons [OF split_pieces_nonempty])
    also have "\<dots> = take i s @ sep @ ?r"
      using "1.IH" [OF "1.prems" Some] "1.prems" by simp
    also have "\<dots> = s"
      using find_first_decomp [OF Some] by simp
    finally show ?thesis .
  qed
qed

lemma str_replace_join: "old \<noteq> [] \<Longrightarrow> str_replace s old new = str_join new (split_pieces s old)"
proof (induction s old rule: split_pieces.induct)
  case (1 s sep)
  show ?case
  proof (cases "find_first sep s")
    case None
    with "1.prems" show ?thesis
      by (subst str_replace.simps, subst split_pieces.simps) simp
  next
    case (Some i)
    let ?r = "drop (i + length sep) s"
    have "split_pieces s sep = take i s # split_pieces ?r sep"
      using "1.prems" Some by (subst split_pieces.simps) simp
    then have "str_join new (split_pieces s sep) = take i s @ new @ str_join new (split_pieces ?r sep)"
      by (simp only: str_join_Cons [OF split_pieces_nonempty])
    moreover have "str_replace s sep new = take i s @ new @ str_replace ?r sep new"
      using "1.prems" Some by (subst str_replace.simps) simp
    ultimately show ?thesis
      using "1.IH" [OF "1.prems" Some] "1.prems" by simp
  qed
qed

lemma split_pieces_free: "sep \<noteq> [] \<Longrightarrow> p \<in> set (split_pieces s sep) \<Longrightarrow> \<not> sublist sep p"
proof (induction s sep rule: split_pieces.induct)
  case (1 s sep)
  show ?case
  proof (cases "find_first sep s")
    case None
    with "1.prems" have "p = s"
      by (subst (asm) split_pieces.simps) simp
    with None show ?thesis by (simp add: find_first_None_iff)
  next
    case (Some i)
    let ?r = "drop (i + length sep) s"
    have "split_pieces s sep = take i s # split_pieces ?r sep"
      using "1.prems" Some by (subst split_pieces.simps) simp
    with "1.prems" consider "p = take i s" | "p \<in> set (split_pieces ?r sep)"
      by auto
    then show ?thesis
    proof cases
      case 1
      have "\<not> sublist sep (take i s @ butlast sep)"
        using Some "1.prems"(1) by (rule find_first_no_sublist_take)
      then show ?thesis
        unfolding 1 by (meson sublist_append_rightI sublist_order.order_trans)
    next
      case 2
      with "1.IH" [OF "1.prems"(1) Some "1.prems"(1)] show ?thesis .
    qed
  qed
qed

lemma count_occ_zero_iff: "sub \<noteq> [] \<Longrightarrow> count_occ sub s = 0 \<longleftrightarrow> \<not> sublist sub s"
  by (induction s) (auto simp: sublist_Cons_right)

lemma count_occ_drop_first:
  "find_first sub s = Some i \<Longrightarrow> count_occ sub s = count_occ sub (drop i s)"
proof (induction s arbitrary: i)
  case Nil
  then show ?case by simp
next
  case (Cons c cs)
  show ?case
  proof (cases "prefix sub (c # cs)")
    case True
    with Cons.prems show ?thesis by simp
  next
    case False
    with Cons.prems obtain j where "find_first sub cs = Some j" "i = Suc j"
      by auto
    with Cons.IH [of j] False show ?thesis by simp
  qed
qed

lemma count_occ_anchor_step: "count_occ ''<a '' (''<a '' @ r) = Suc (count_occ ''<a '' r)"
  by simp

lemma length_split_pieces_anchor: "length (split_pieces s ''<a '') = Suc (count_occ ''<a '' s)"
proof (induction s "''<a ''" rule: split_pieces.induct)
  case (1 s)
  show ?case
  proof (cases "find_first ''<a '' s")
    case None
    then have "count_occ ''<a '' s = 0"
      by (simp add: count_occ_zero_iff find_first_None_iff)
    with None show ?thesis by (subst split_pieces.simps) simp
  next
    case (Some i)
    let ?r = "drop (i + length ''<a '') s"
    have "split_pieces s ''<a '' = take i s # split_pieces ?r ''<a ''"
      using Some by (subst split_pieces.simps) simp
    then have "length (split_pieces s ''<a '') = Suc (Suc (count_occ ''<a '' ?r))"
      using "1.hyps" [OF _ Some] by simp
    moreover have "drop i s = ''<a '' @ ?r"
      using find_first_decomp [OF Some]
      by (metis append_eq_conv_conj find_first_SomeD Some length_take min.absorb2 add_leD1)
    then have "count_occ ''<a '' s = Suc (count_occ ''<a '' ?r)"
      using count_occ_drop_first [OF Some] count_occ_anchor_step by simp
    ultimately show ?thesis by simp
  qed
qed

lemma length_str_join:
  "length (str_join sep xs) = sum_list (map length xs) + (length xs - 1) * length sep"
  by (induction sep xs rule: str_join.induct) simp_all

section \<open>Properties of the preview sanitizer\<close>

lemma sum_list_length_pieces:
  assumes "sep \<noteq> []"
  shows "sum_list (map length (split_pieces s sep)) + (length (split_pieces s sep) - 1) * length sep = length s"
  using length_str_join [of sep "split_pieces s sep"] str_join_split_pieces [OF assms, of s]
  by simp

lemma length_replace_anchor:
  "length (str_replace h ''<a '' anchor_new) = length h + count_occ ''<a '' h * length link_attrs"
proof -
  let ?ps = "split_pieces h ''<a ''"
  have 1: "length (str_replace h ''<a '' anchor_new)
      = sum_list (map length ?ps) + (length ?ps - 1) * length anchor_new"
    by (simp add: str_replace_join length_str_join)
  have 2: "sum_list (map length ?ps) + (length ?ps - 1) * 3 = length h"
    using sum_list_length_pieces [of "''<a ''" h] by simp
  have 3: "length ?ps - 1 = count_occ ''<a '' h"
    by (simp add: length_split_pieces_anchor)
  have 4: "length anchor_new = 3 + length link_attrs"
    by (simp add: anchor_new_def link_attrs_def)
  show ?thesis
    using 1 2 unfolding 3 4 by (simp add: algebra_simps)
qed

text \<open>
  Claim C6.  The link rewrite of \<^verbatim>\<open>sanitize_html_for_preview\<close> cuts the fragment at
  every occurrence of the four characters \<^verbatim>\<open><a \<close> and puts the pieces back together
  with \<open>anchor_new\<close>, which is \<^verbatim>\<open><a \<close> followed at once by the two attributes, in
  place of each occurrence.  The pieces themselves are unchanged: joined with
  \<^verbatim>\<open><a \<close> they are the input, and none of them contains \<^verbatim>\<open><a \<close>.  There is one
  more piece than the input has occurrences of \<^verbatim>\<open><a \<close>, so the number of rewritten
  anchors is the number of occurrences, and the output is longer than the input by
  that number of copies of the attributes; the text put in is not rewritten again.
\<close>

theorem link_rewrite_every_anchor:
  "sanitize_html_for_preview h = force_light_theme (str_join anchor_new (split_pieces h ''<a ''))
   \<and> anchor_new = ''<a '' @ link_attrs
   \<and> str_join ''<a '' (split_pieces h ''<a '') = h
   \<and> (\<forall>p \<in> set (split_pieces h ''<a ''). \<not> sublist ''<a '' p)
   \<and> length (split_pieces h ''<a '') = Suc (count_occ ''<a '' h)
   \<and> length (str_replace h ''<a '' anchor_new)
       = length h + count_occ ''<a '' h * length link_attrs"
proof -
  have "sanitize_html_for_preview h = force_light_theme (str_join anchor_new (split_pieces h ''<a ''))"
    by (simp add: sanitize_html_for_preview_def str_replace_join)
  moreover have "anchor_new = ''<a '' @ link_attrs"
    by (simp add: anchor_new_def link_attrs_def)
  moreover have "str_join ''<a '' (split_pieces h ''<a '') = h"
    by (simp add: str_join_split_pieces)
  moreover have "\<forall>p \<in> set (split_pieces h ''<a ''). \<not> sublist ''<a '' p"
    using split_pieces_free [of "''<a ''" _ h] by blast
  moreover note length_split_pieces_anchor [of h] length_replace_anchor [of h]
  ultimately show ?thesis by blast
qed

theorem link_rewrite_every_anchor_witness:
  \<open>split_pieces sample_fragment ''<a '' = [''<p>'', ''href=x>x</a> '', '' id=y>y</a><a>z</a></p>'']
   \<and> count_occ ''<a '' sample_fragment = 2
   \<and> sanitize_html_for_preview sample_fragment
       = force_light_theme
           ''<p><a target="_blank" rel="noopener noreferrer" href=x>x</a> <a target="_blank" rel="noopener noreferrer"  id=y>y</a><a>z</a></p>''
   \<and> \<not> sublist ''<a '' ''<p>''\<close>
  using link_rewrite_every_anchor [of sample_fragment]
  by (simp add: sample_fragment_def split_pieces.simps anchor_new_def sublist_code)

lemma count_occ_append_right:
  assumes "t \<noteq> []" "hd t \<notin> set (tl m)"
  shows "count_occ m (h @ t) = count_occ m h + count_occ m t"
proof (induction h)
  case Nil
  show ?case by simp
next
  case (Cons c h)
  have "prefix m (c # h @ t) \<longleftrightarrow> prefix m (c # h)"
  proof
    assume pr: "prefix m (c # h @ t)"
    show "prefix m (c # h)"
    proof (rule ccontr)
      assume np: "\<not> prefix m (c # h)"
      from pr have "prefix m ((c # h) @ t)" by simp
      then consider "prefix m (c # h)" | us where "us \<noteq> []" "m = (c # h) @ us" "prefix us t"
        unfolding prefix_append by (metis append_Nil2 prefix_order.order_refl)
      then show False
      proof cases
        case 1
        with np show False by simp
      next
        case 2
        then obtain u us' where "us = u # us'" by (cases us) auto
        with 2 assms(1) have "hd t = u" by (cases t) auto
        moreover have "u \<in> set (tl m)" using 2 \<open>us = u # us'\<close> by simp
        ultimately show False using assms(2) by simp
      qed
    qed
  next
    assume "prefix m (c # h)"
    then show "prefix m (c # h @ t)"
      by (metis append_Cons prefix_prefix)
  qed
  with Cons.IH show ?case by simp
qed

lemma count_style_open: "count_occ ''<style>'' (force_light_theme h) = Suc (count_occ ''<style>'' h)"
proof -
  have "count_occ ''<style>'' (h @ ''</body></html>'') = count_occ ''<style>'' h"
    by (subst count_occ_append_right) simp_all
  then show ?thesis
    by (simp add: force_light_theme_def override_css_def)
qed

lemma count_style_close: "count_occ ''</style>'' (force_light_theme h) = Suc (count_occ ''</style>'' h)"
proof -
  have "count_occ ''</style>'' (h @ ''</body></html>'') = count_occ ''</style>'' h"
    by (subst count_occ_append_right) simp_all
  then show ?thesis
    by (simp add: force_light_theme_def override_css_def)
qed

text \<open>
  Claim C7, as amended.  The theme-lock wrapper returns the document shell with the
  fragment inside it, unmodified and contiguous: a fixed prefix (doctype, head with
  the injected style block, opening body tag), the fragment, a fixed suffix.  The
  prefix holds exactly one opening and one closing style tag, so the wrapper adds
  exactly one style block: the output has one more \<^verbatim>\<open><style>\<close> and one more
  \<^verbatim>\<open></style>\<close> than the fragment.  (It has exactly one only when the fragment has
  none.)
\<close>

theorem theme_lock_adds_one_style_block:
  "force_light_theme h
     = (''<!DOCTYPE html><html><head>'' @ override_css @ ''</head><body>'') @ h @ ''</body></html>''
   \<and> count_occ ''<style>'' (''<!DOCTYPE html><html><head>'' @ override_css @ ''</head><body>'') = 1
   \<and> count_occ ''</style>'' (''<!DOCTYPE html><html><head>'' @ override_css @ ''</head><body>'') = 1
   \<and> count_occ ''<style>'' (force_light_theme h) = Suc (count_occ ''<style>'' h)
   \<and> count_occ ''</style>'' (force_light_theme h) = Suc (count_occ ''</style>'' h)"
proof -
  have "count_occ ''<style>'' (''<!DOCTYPE html><html><head>'' @ override_css @ ''</head><body>'') = 1"
    by (simp add: override_css_def)
  moreover have "count_occ ''</style>'' (''<!DOCTYPE html><html><head>'' @ override_css @ ''</head><body>'') = 1"
    by (simp add: override_css_def)
  ultimately show ?thesis
    by (simp add: count_style_open count_style_close) (simp add: force_light_theme_def)
qed

text \<open>
  Claim C7 as stated fails on a fragment that brings a style block of its own: the
  output then holds two.
\<close>

theorem theme_lock_one_style_block_counterexample:
  "count_occ ''<style>'' (force_light_theme ''<style>p{}</style><p>hi</p>'') = 2
   \<and> count_occ ''</style>'' (force_light_theme ''<style>p{}</style><p>hi</p>'') = 2"
  by (simp add: force_light_theme_def override_css_def)

theorem theme_lock_adds_one_style_block_witness:
  "count_occ ''<style>'' (force_light_theme ''<p>hi</p>'') = 1
   \<and> count_occ ''</style>'' (force_light_theme ''<style>p{}</style><p>hi</p>'') = 2"
  using theme_lock_adds_one_style_block [of "''<p>hi</p>''", THEN conjunct2, THEN conjunct2, THEN conjunct2]
    theme_lock_adds_one_style_block [of "''<style>p{}</style><p>hi</p>''", THEN conjunct2, THEN conjunct2, THEN conjunct2]
  by simp

section \<open>Properties of the text extractor\<close>

lemma or_empty_eq: "or_empty p = (case p of None \<Rightarrow> '''' | Some t \<Rightarrow> t)"
  by (simp add: or_empty_def split: option.splits)

lemma append_chunks_eq: "append_chunks acc pages = acc @ map or_empty pages"
  by (induction acc pages rule: append_chunks.induct) simp_all

lemma count_list_str_join:
  "count_list (str_join [c] xs) c = sum_list (map (\<lambda>x. count_list x c) xs) + (length xs - 1)"
  by (induction "[c]" xs rule: str_join.induct) simp_all

lemma sublist_single: "sublist [c] xs \<longleftrightarrow> c \<in> set xs"
  by (induction xs) (auto simp: sublist_Cons_right)

lemma split_join_char:
  assumes "xs \<noteq> []" "\<forall>x \<in> set xs. c \<notin> set x"
  shows "split_pieces (str_join [c] xs) [c] = xs"
  using assms
proof (induction "[c]" xs rule: str_join.induct)
  case 1
  then show ?case by simp
next
  case (2 x)
  then have "find_first [c] x = None"
    by (simp add: find_first_None_iff sublist_single)
  then show ?case
    by (subst split_pieces.simps) simp
next
  case (3 x y ys)
  let ?r = "str_join [c] (y # ys)"
  have "\<not> sublist [c] (x @ butlast [c])"
    using "3.prems" by (simp add: sublist_single)
  then have f: "find_first [c] (x @ [c] @ ?r) = Some (length x)"
    by (intro find_first_append) simp_all
  have "split_pieces (x @ [c] @ ?r) [c] = x # split_pieces ?r [c]"
    using f by (subst split_pieces.simps) simp
  moreover have "split_pieces ?r [c] = y # ys"
    using "3.hyps" "3.prems" by simp
  ultimately show ?case by simp
qed

text \<open>
  Claim C5.  When the PDF library reads the document as a sequence of \<open>N\<close> pages,
  \<^verbatim>\<open>extract_text_from_pdf\<close> returns the page texts, in page order, joined with the
  newline: a page without text contributes the empty text and is not dropped, so
  there are as many texts as pages.  The separators number \<open>N - 1\<close>: the result is
  longer than the texts together by \<open>N - 1\<close> characters, and holds \<open>N - 1\<close> newlines
  more than the texts hold themselves.  When no page text holds a newline, splitting
  the result at the newlines gives back the \<open>N\<close> texts in order.
\<close>

theorem pdf_pages_joined:
  assumes "reader bs = Inr pages"
  shows "let texts = map (\<lambda>p. case p of None \<Rightarrow> '''' | Some t \<Rightarrow> t) pages;
             r = str_join ''\<newline>'' texts
         in extract_text_from_pdf reader bs = Inr r
          \<and> length texts = length pages
          \<and> length r = sum_list (map length texts) + (length pages - 1)
          \<and> count_list r CHR 0x0A
              = sum_list (map (\<lambda>t. count_list t CHR 0x0A) texts) + (length pages - 1)
          \<and> (pages \<noteq> [] \<and> (\<forall>t \<in> set texts. CHR 0x0A \<notin> set t)
               \<longrightarrow> split_pieces r ''\<newline>'' = texts)"
proof -
  let ?texts = "map (\<lambda>p. case p of None \<Rightarrow> '''' | Some t \<Rightarrow> t) pages"
  let ?r = "str_join ''\<newline>'' ?texts"
  have t: "map or_empty pages = ?texts"
    by (simp add: or_empty_eq)
  have 1: "extract_text_from_pdf reader bs = Inr ?r"
    using assms by (simp add: extract_text_from_pdf_def append_chunks_eq t)
  have 2: "length ?r = sum_list (map length ?texts) + (length pages - 1)"
    using length_str_join [of "''\<newline>''" ?texts] by simp
  have 3: "count_list ?r CHR 0x0A
      = sum_list (map (\<lambda>t. count_list t CHR 0x0A) ?texts) + (length pages - 1)"
    using count_list_str_join [of "CHR 0x0A" ?texts] by simp
  have 4: "split_pieces ?r ''\<newline>'' = ?texts"
    if "pages \<noteq> []" "\<forall>t \<in> set ?texts. CHR 0x0A \<notin> set t"
    using split_join_char [of ?texts "CHR 0x0A"] that by simp
  show ?thesis
    unfolding Let_def using 1 2 3 4 by simp
qed

theorem pdf_pages_joined_witness:
  "extract_text_from_pdf sample_pdf_reader [] = Inr ''PDF page 1\<newline>''
   \<and> count_list ''PDF page 1\<newline>'' CHR 0x0A = 1
   \<and> split_pieces ''PDF page 1\<newline>'' ''\<newline>'' = [''PDF page 1'', '''']"
  using pdf_pages_joined [of sample_pdf_reader "[]" "[Some ''PDF page 1'', None]"]
  by (simp add: sample_pdf_reader_def Let_def)

text \<open>
  Claim C4, as amended.  Without a file the function returns the empty string.  With
  a file, the PDF extractor is used when the media type is \<^verbatim>\<open>application/pdf\<close> or the
  lower-cased name ends in \<^verbatim>\<open>.pdf\<close> (so the media type \<^verbatim>\<open>application/pdf\<close> selects it
  whatever the name is, and a name in \<^verbatim>\<open>.pdf\<close> selects it whatever the media type
  is); otherwise the DOCX extractor is used when the media type is one of the two
  Word types or the lower-cased name ends in \<^verbatim>\<open>.docx\<close>; otherwise the function
  returns the empty string.  Nothing is raised by the selection itself.
\<close>

theorem extract_resume_text_selection:
  "extract_resume_text pdf docx None = Inr ''''
   \<and> (file_type f = ''application/pdf'' \<or> str_endswith (str_lower (file_name f)) ''.pdf''
        \<longrightarrow> extract_resume_text pdf docx (Some f) = extract_text_from_pdf pdf (file_bytes f))
   \<and> (\<not> (file_type f = ''application/pdf'' \<or> str_endswith (str_lower (file_name f)) ''.pdf'')
        \<and> (file_type f = ''application/vnd.openxmlformats-officedocument.wordprocessingml.document''
             \<or> file_type f = ''application/msword''
             \<or> str_endswith (str_lower (file_name f)) ''.docx'')
        \<longrightarrow> extract_resume_text pdf docx (Some f) = extract_text_from_docx docx (file_bytes f))
   \<and> (\<not> (file_type f = ''application/pdf'' \<or> str_endswith (str_lower (file_name f)) ''.pdf'')
        \<and> \<not> (file_type f = ''application/vnd.openxmlformats-officedocument.wordprocessingml.document''
             \<or> file_type f = ''application/msword''
             \<or> str_endswith (str_lower (file_name f)) ''.docx'')
        \<longrightarrow> extract_resume_text pdf docx (Some f) = Inr '''')"
  by (simp add: extract_resume_text_def)

text \<open>
  Claim C4 as stated fails on a file whose media type is the DOCX type and whose
  name ends in \<^verbatim>\<open>.pdf\<close>: the media type identifies the DOCX format, yet the PDF
  extractor is used.
\<close>

theorem extract_resume_text_media_type_first_counterexample:
  "file_type docx_typed_pdf_named
     = ''application/vnd.openxmlformats-officedocument.wordprocessingml.document''
   \<and> extract_resume_text sample_pdf_reader sample_docx_reader (Some docx_typed_pdf_named)
     = extract_text_from_pdf sample_pdf_reader (file_bytes docx_typed_pdf_named)
   \<and> extract_resume_text sample_pdf_reader sample_docx_reader (Some docx_typed_pdf_named)
     = Inr ''PDF page 1\<newline>''
   \<and> extract_text_from_docx sample_docx_reader (file_bytes docx_typed_pdf_named)
     = Inr ''DOCX paragraph''"
  by (simp add: extract_resume_text_def docx_typed_pdf_named_def str_endswith_def str_lower_def
      lower_char_def extract_text_from_pdf_def extract_text_from_docx_def sample_pdf_reader_def
      sample_docx_reader_def or_empty_def)

lemma msword_file_name_lower: "str_lower (file_name msword_file) = ''resume.doc''"
  unfolding msword_file_def by code_simp

theorem extract_resume_text_selection_witness:
  "extract_resume_text sample_pdf_reader sample_docx_reader None = Inr ''''
   \<and> extract_resume_text sample_pdf_reader sample_docx_reader (Some docx_typed_pdf_named)
     = extract_text_from_pdf sample_pdf_reader []
   \<and> extract_resume_text sample_pdf_reader sample_docx_reader (Some msword_file)
     = extract_text_from_docx sample_docx_reader []
   \<and> extract_resume_text sample_pdf_reader sample_docx_reader
        (Some \<lparr>file_type = ''text/plain'', file_name = ''notes.txt'', file_bytes = []\<rparr>) = Inr ''''"
  using extract_resume_text_selection [of sample_pdf_reader sample_docx_reader docx_typed_pdf_named]
    extract_resume_text_selection [of sample_pdf_reader sample_docx_reader msword_file]
    extract_resume_text_selection [of sample_pdf_reader sample_docx_reader
      "\<lparr>file_type = ''text/plain'', file_name = ''notes.txt'', file_bytes = []\<rparr>"]
  by (simp add: msword_file_name_lower str_endswith_def)
    (simp add: docx_typed_pdf_named_def msword_file_def str_endswith_def str_lower_def lower_char_def)

text \<open>
  Claim C9, as amended.  A file whose declared media type is \<^verbatim>\<open>application/msword\<close>
  and whose name does not end in \<^verbatim>\<open>.pdf\<close> in any case of its letters (the code
  lower-cases the name before the test) is given to the DOCX extractor.
\<close>

theorem msword_routed_to_docx:
  assumes "file_type f = ''application/msword''"
    and "\<not> str_endswith (str_lower (file_name f)) ''.pdf''"
  shows "extract_resume_text pdf docx (Some f) = extract_text_from_docx docx (file_bytes f)"
  using assms by (simp add: extract_resume_text_def)

theorem msword_routed_to_docx_witness:
  "extract_resume_text sample_pdf_reader sample_docx_reader (Some msword_file)
     = Inr ''DOCX paragraph''"
  using msword_routed_to_docx [of msword_file sample_pdf_reader sample_docx_reader]
  by (simp add: msword_file_name_lower str_endswith_def)
    (simp add: msword_file_def extract_text_from_docx_def sample_docx_reader_def)

lemma msword_upper_pdf_name_lower: "str_lower (file_name msword_upper_pdf) = ''cv.pdf''"
  unfolding msword_upper_pdf_def by code_simp

text \<open>
  Claim C9 as stated fails on a file of media type \<^verbatim>\<open>application/msword\<close> named
  \<^verbatim>\<open>CV.PDF\<close>: the name does not end in \<^verbatim>\<open>.pdf\<close>, yet the lower-cased name does, and
  the file is given to the PDF extractor, not to the DOCX extractor.
\<close>

theorem msword_upper_case_pdf_counterexample:
  "file_type msword_upper_pdf = ''application/msword''
   \<and> \<not> str_endswith (file_name msword_upper_pdf) ''.pdf''
   \<and> extract_resume_text sample_pdf_reader sample_docx_reader (Some msword_upper_pdf)
     = extract_text_from_pdf sample_pdf_reader (file_bytes msword_upper_pdf)
   \<and> extract_resume_text sample_pdf_reader sample_docx_reader (Some msword_upper_pdf)
     = Inr ''PDF page 1\<newline>''
   \<and> extract_text_from_docx sample_docx_reader (file_bytes msword_upper_pdf)
     = Inr ''DOCX paragraph''"
  by (simp add: extract_resume_text_def msword_upper_pdf_name_lower str_endswith_def)
    (simp add: msword_upper_pdf_def str_endswith_def extract_text_from_pdf_def
      extract_text_from_docx_def sample_pdf_reader_def sample_docx_reader_def or_empty_def)

section \<open>Properties of the archive packager\<close>

lemma div64: "128 \<le> n \<Longrightarrow> n < 256 \<Longrightarrow> 2 \<le> n div 64 \<and> n div 64 < 4" for n :: nat
  by (simp add: div_less_iff_less_mult less_eq_div_iff_mult_less_eq)

lemma unat_byte: "n < 256 \<Longrightarrow> unat (of_nat n :: 8 word) = n"
  by (simp add: unat_of_nat)

lemma unat_lead: "128 \<le> n \<Longrightarrow> n < 256 \<Longrightarrow> unat (of_nat (192 + n div 64) :: 8 word) = 192 + n div 64"
  using div64 [of n] by (intro unat_byte) linarith

lemma unat_cont: "unat (of_nat (128 + n mod 64) :: 8 word) = 128 + n mod 64"
proof (rule unat_byte)
  have "n mod 64 < 64" by simp
  then show "128 + n mod 64 < 256" by linarith
qed

lemma decode_two_bytes:
  assumes "128 \<le> n" "n < 256"
  shows "bytes_decode_utf8 (of_nat (192 + n div 64) # of_nat (128 + n mod 64) # bs)
       = map_option ((#) (char_of n)) (bytes_decode_utf8 bs)"
proof -
  let ?b = "of_nat (192 + n div 64) :: 8 word" and ?b2 = "of_nat (128 + n mod 64) :: 8 word"
  have 1: "unat ?b = 192 + n div 64" using assms by (rule unat_lead)
  have 2: "unat ?b2 = 128 + n mod 64" by (rule unat_cont)
  have d: "n div 64 = 2 \<or> n div 64 = 3" using div64 [OF assms] by linarith
  have lead: "\<not> unat ?b < 128" "unat ?b = 194 \<or> unat ?b = 195"
    unfolding 1 using d by auto
  have cont: "128 \<le> unat ?b2" "unat ?b2 < 192"
    unfolding 2 by simp_all
  have val: "(unat ?b - 192) * 64 + (unat ?b2 - 128) = n"
    unfolding 1 2 by simp
  show ?thesis
    by (simp only: bytes_decode_utf8.simps lead cont val if_True if_False simp_thms)
qed

lemma of_char_less_256: "(of_char c :: nat) < 256"
proof -
  have "(of_char c :: nat) mod 256 < 256" by simp
  then show ?thesis by (simp only: of_char_mod_256)
qed

lemma decode_one_byte:
  assumes "n < 128"
  shows "bytes_decode_utf8 (of_nat n # bs) = map_option ((#) (char_of n)) (bytes_decode_utf8 bs)"
proof -
  have u: "unat (of_nat n :: 8 word) = n" using assms by (intro unat_byte) simp
  show ?thesis
  proof (cases bs)
    case Nil
    then show ?thesis using assms by (simp only: bytes_decode_utf8.simps u if_True option.map)
  next
    case (Cons b2 bs')
    then show ?thesis using assms by (simp only: bytes_decode_utf8.simps u if_True)
  qed
qed

lemma decode_utf8_char:
  "bytes_decode_utf8 (utf8_char c @ bs) = map_option ((#) c) (bytes_decode_utf8 bs)"
proof -
  define n where "n = (of_char c :: nat)"
  have c: "char_of n = c" by (simp add: n_def)
  have lt: "n < 256" unfolding n_def by (rule of_char_less_256)
  show ?thesis
  proof (cases "n < 128")
    case True
    have "utf8_char c = [of_nat n]"
      using True by (simp only: utf8_char_def Let_def n_def [symmetric] if_True)
    then show ?thesis
      using decode_one_byte [OF True, of bs] c by simp
  next
    case False
    then have "utf8_char c = [of_nat (192 + n div 64), of_nat (128 + n mod 64)]"
      by (simp only: utf8_char_def Let_def n_def [symmetric] if_False)
    moreover have "128 \<le> n" using False by simp
    ultimately show ?thesis
      using decode_two_bytes [OF _ lt, of bs] c by simp
  qed
qed

lemma decode_encode_utf8: "bytes_decode_utf8 (str_encode_utf8 s) = Some s"
  by (induction s) (simp_all add: str_encode_utf8_def decode_utf8_char)

lemma get_put_length: "get_length (put_length n @ r) = Some (n, r)"
  by (induction n) (simp_all add: put_length_def)

lemma get_put_field: "get_field (put_field xs @ r) = Some (xs, r)"
  by (simp add: get_field_def put_field_def get_put_length)

lemma get_store_entries: "get_entries (length es) (store_entries es) = Some es"
  by (induction es rule: store_entries.induct) (simp_all add: get_put_field decode_encode_utf8)

lemma read_store_archive: "read_archive (store_archive es) = Some es"
  by (simp add: read_archive_def store_archive_def get_put_length get_store_entries)

lemma create_zip_bytes_entries:
  "create_zip_bytes zip_format h c j
     = zip_format [(''index.html'', str_encode_utf8 h), (''style.css'', str_encode_utf8 c),
                   (''script.js'', str_encode_utf8 j)]"
  by (simp add: create_zip_bytes_def writestr_def zipfile_close_def bytes_io_new_def
      bytes_io_write_def bytes_io_seek_def bytes_io_read_def)

lemma continuation_value: "unat b = 0x80 + x \<Longrightarrow> x < 64 \<Longrightarrow> continuation b = Some x"
  by (simp add: continuation_def)

lemma decode_1:
  assumes "unat b = n" "n < 0x80"
  shows "text_decode_utf8 (b # bs) = map_option ((#) n) (text_decode_utf8 bs)"
  using assms by (simp add: Let_def)

lemma decode_2:
  assumes "unat b = 0xC0 + a" "2 \<le> a" "a < 32" "unat b1 = 0x80 + x1" "x1 < 64"
  shows "text_decode_utf8 (b # b1 # bs) = map_option ((#) (a * 64 + x1)) (text_decode_utf8 bs)"
  using assms by (simp add: Let_def continuation_value)

lemma decode_3:
  assumes "unat b = 0xE0 + a" "a < 16" "unat b1 = 0x80 + x1" "x1 < 64"
    and "unat b2 = 0x80 + x2" "x2 < 64"
    and "0x800 \<le> a * 4096 + x1 * 64 + x2" "\<not> is_surrogate (a * 4096 + x1 * 64 + x2)"
  shows "text_decode_utf8 (b # b1 # b2 # bs)
       = map_option ((#) (a * 4096 + x1 * 64 + x2)) (text_decode_utf8 bs)"
  using assms by (simp add: Let_def continuation_value)

lemma decode_4:
  assumes "unat b = 0xF0 + a" "a < 5" "unat b1 = 0x80 + x1" "x1 < 64"
    and "unat b2 = 0x80 + x2" "x2 < 64" "unat b3 = 0x80 + x3" "x3 < 64"
    and "0x10000 \<le> a * 262144 + x1 * 4096 + x2 * 64 + x3"
    and "a * 262144 + x1 * 4096 + x2 * 64 + x3 < 0x110000"
  shows "text_decode_utf8 (b # b1 # b2 # b3 # bs)
       = map_option ((#) (a * 262144 + x1 * 4096 + x2 * 64 + x3)) (text_decode_utf8 bs)"
  using assms by (simp add: Let_def continuation_value)

lemma split_64: "cp div 64 * 64 + cp mod 64 = cp" for cp :: nat
  by simp

lemma split_step: "q div 64 * (64 * k) + q mod 64 * k = q * k" for q k :: nat
proof -
  have "(q div 64 * 64 + q mod 64) * k = q div 64 * (64 * k) + q mod 64 * k"
    by (simp only: distrib_right mult.assoc)
  moreover have "q div 64 * 64 + q mod 64 = q"
    by simp
  ultimately show ?thesis
    by metis
qed

lemma split_4096: "cp div 4096 * 4096 + cp div 64 mod 64 * 64 + cp mod 64 = cp" for cp :: nat
proof -
  have "cp div 4096 = cp div 64 div 64"
    by (simp add: div_mult2_eq)
  then have "cp div 4096 * 4096 + cp div 64 mod 64 * 64 = cp div 64 * 64"
    using split_step [of "cp div 64" 64] by simp
  then show ?thesis
    by (simp only: split_64)
qed

lemma split_262144:
  "cp div 262144 * 262144 + cp div 4096 mod 64 * 4096 + cp div 64 mod 64 * 64 + cp mod 64 = cp"
  for cp :: nat
proof -
  have "cp div 262144 = cp div 4096 div 64"
    by (simp add: div_mult2_eq)
  then have "cp div 262144 * 262144 + cp div 4096 mod 64 * 4096 = cp div 4096 * 4096"
    using split_step [of "cp div 4096" 4096] by simp
  then show ?thesis
    by (simp only: split_4096)
qed

lemma unat_continuation: "unat (of_nat (0x80 + x mod 64) :: 8 word) = 0x80 + x mod 64"
proof (rule unat_byte)
  have "x mod 64 < 64" by simp
  then show "0x80 + x mod 64 < 256" by linarith
qed

lemma decode_code_point:
  assumes "cp < 0x110000" "\<not> is_surrogate cp"
  shows "text_decode_utf8 (utf8_code_point cp @ bs) = map_option ((#) cp) (text_decode_utf8 bs)"
proof -
  consider "cp < 0x80" | "0x80 \<le> cp" "cp < 0x800" | "0x800 \<le> cp" "cp < 0x10000"
    | "0x10000 \<le> cp"
    by linarith
  then show ?thesis
  proof cases
    case 1
    then have "unat (of_nat cp :: 8 word) = cp"
      by (intro unat_byte) simp
    from decode_1 [OF this 1, where bs = bs] 1 show ?thesis
      by (simp add: utf8_code_point_def)
  next
    case 2
    then have a: "2 \<le> cp div 64" "cp div 64 < 32"
      by (simp_all add: div_less_iff_less_mult less_eq_div_iff_mult_less_eq)
    then have "unat (of_nat (0xC0 + cp div 64) :: 8 word) = 0xC0 + cp div 64"
      by (intro unat_byte) simp
    from decode_2 [OF this a unat_continuation [of cp], where bs = bs] 2 show ?thesis
      by (simp add: utf8_code_point_def)
  next
    case 3
    then have a: "cp div 4096 < 16"
      by (simp add: div_less_iff_less_mult)
    then have b: "unat (of_nat (0xE0 + cp div 4096) :: 8 word) = 0xE0 + cp div 4096"
      by (intro unat_byte) simp
    have r: "0x800 \<le> cp div 4096 * 4096 + cp div 64 mod 64 * 64 + cp mod 64"
      "\<not> is_surrogate (cp div 4096 * 4096 + cp div 64 mod 64 * 64 + cp mod 64)"
      using 3 assms(2) by (simp_all only: split_4096 simp_thms)
    have "text_decode_utf8
            (of_nat (0xE0 + cp div 4096) # of_nat (0x80 + cp div 64 mod 64)
               # of_nat (0x80 + cp mod 64) # bs)
        = map_option ((#) (cp div 4096 * 4096 + cp div 64 mod 64 * 64 + cp mod 64))
            (text_decode_utf8 bs)"
      by (rule decode_3 [OF b a unat_continuation _ unat_continuation _ r]) simp_all
    then have "text_decode_utf8
            (of_nat (0xE0 + cp div 4096) # of_nat (0x80 + cp div 64 mod 64)
               # of_nat (0x80 + cp mod 64) # bs)
        = map_option ((#) cp) (text_decode_utf8 bs)"
      by (simp only: split_4096)
    with 3 show ?thesis
      by (simp add: utf8_code_point_def)
  next
    case 4
    with assms have a: "cp div 262144 < 5"
      by (simp add: div_less_iff_less_mult)
    then have b: "unat (of_nat (0xF0 + cp div 262144) :: 8 word) = 0xF0 + cp div 262144"
      by (intro unat_byte) simp
    have r: "0x10000 \<le> cp div 262144 * 262144 + cp div 4096 mod 64 * 4096
                + cp div 64 mod 64 * 64 + cp mod 64"
      "cp div 262144 * 262144 + cp div 4096 mod 64 * 4096 + cp div 64 mod 64 * 64 + cp mod 64
         < 0x110000"
      using 4 assms(1) by (simp_all only: split_262144 simp_thms)
    have "text_decode_utf8
            (of_nat (0xF0 + cp div 262144) # of_nat (0x80 + cp div 4096 mod 64)
               # of_nat (0x80 + cp div 64 mod 64) # of_nat (0x80 + cp mod 64) # bs)
        = map_option
            ((#) (cp div 262144 * 262144 + cp div 4096 mod 64 * 4096 + cp div 64 mod 64 * 64
                    + cp mod 64))
            (text_decode_utf8 bs)"
      by (rule decode_4 [OF b a unat_continuation _ unat_continuation _ unat_continuation _ r])
        simp_all
    then have "text_decode_utf8
            (of_nat (0xF0 + cp div 262144) # of_nat (0x80 + cp div 4096 mod 64)
               # of_nat (0x80 + cp div 64 mod 64) # of_nat (0x80 + cp mod 64) # bs)
        = map_option ((#) cp) (text_decode_utf8 bs)"
      by (simp only: split_262144)
    with 4 show ?thesis
      by (simp add: utf8_code_point_def)
  qed
qed

lemma decode_utf8_bytes:
  assumes "list_all (\<lambda>cp. cp < 0x110000) t" "\<not> list_ex is_surrogate t"
  shows "text_decode_utf8 (utf8_bytes t) = Some t"
  using assms
  by (induction t) (simp_all add: utf8_bytes_def decode_code_point)

lemma utf8_code_point_of_char: "utf8_code_point (of_char c) = utf8_char c"
proof -
  have a: "(of_char c :: nat) < 256" by (rule of_char_less_256)
  from a have b: "(of_char c :: nat) < 2048" by arith
  from a have d: "(of_char c :: nat) < 65536" by arith
  show ?thesis
    by (simp add: utf8_code_point_def utf8_char_def Let_def b d)
qed

lemma utf8_bytes_of_string: "utf8_bytes (map of_char s) = str_encode_utf8 s"
  by (induction s) (simp_all add: utf8_bytes_def str_encode_utf8_def utf8_code_point_of_char)

lemma no_surrogate_of_string: "\<not> list_ex is_surrogate (map of_char s)"
proof (induction s)
  case Nil
  show ?case by simp
next
  case (Cons c s)
  have "(of_char c :: nat) < 256" by (rule of_char_less_256)
  then have "\<not> is_surrogate (of_char c)" unfolding is_surrogate_def by arith
  with Cons show ?case by simp
qed

lemma create_zip_bytes_unicode_eq:
  "create_zip_bytes_unicode zip_format h c j
     = (if list_ex is_surrogate h \<or> list_ex is_surrogate c \<or> list_ex is_surrogate j
        then Inl UnicodeEncodeError
        else Inr (zip_format [(''index.html'', utf8_bytes h), (''style.css'', utf8_bytes c),
                              (''script.js'', utf8_bytes j)]))"
  by (simp add: create_zip_bytes_unicode_def writestr_unicode_def text_encode_utf8_def
      zipfile_close_def bytes_io_new_def bytes_io_write_def bytes_io_seek_def bytes_io_read_def)

lemma create_zip_bytes_of_string:
  "create_zip_bytes_unicode zip_format (map of_char h) (map of_char c) (map of_char j)
     = Inr (create_zip_bytes zip_format h c j)"
  by (simp add: create_zip_bytes_unicode_eq no_surrogate_of_string utf8_bytes_of_string
      create_zip_bytes_entries)

text \<open>
  Claim C2, as amended.  For every triple of texts that UTF-8 can encode (none holds a
  surrogate code point), \<^verbatim>\<open>create_zip_bytes\<close> returns the archive of exactly three
  entries, named \<^verbatim>\<open>index.html\<close>, \<^verbatim>\<open>style.css\<close> and \<^verbatim>\<open>script.js\<close> and written in that
  order, whose contents are the UTF-8 bytes of the three texts; reading the archive
  back gives exactly these three entries, and decoding their contents gives the
  three texts.  When one of the texts holds a surrogate, the function raises
  \<^verbatim>\<open>UnicodeEncodeError\<close>.  (The first statement is for any layout of the archive; the
  archive is read back in the container modelled from the specification.)
\<close>

theorem zip_round_trip:
  "create_zip_bytes_unicode zip_format h c j
     = (if list_ex is_surrogate h \<or> list_ex is_surrogate c \<or> list_ex is_surrogate j
        then Inl UnicodeEncodeError
        else Inr (zip_format [(''index.html'', utf8_bytes h), (''style.css'', utf8_bytes c),
                              (''script.js'', utf8_bytes j)]))
   \<and> (\<not> list_ex is_surrogate h \<and> \<not> list_ex is_surrogate c \<and> \<not> list_ex is_surrogate j \<longrightarrow>
        (\<exists>b. create_zip_bytes_unicode store_archive h c j = Inr b
           \<and> read_archive b
               = Some [(''index.html'', utf8_bytes h), (''style.css'', utf8_bytes c),
                       (''script.js'', utf8_bytes j)]))
   \<and> (list_all (\<lambda>cp. cp < 0x110000) h \<and> \<not> list_ex is_surrogate h \<longrightarrow>
        text_decode_utf8 (utf8_bytes h) = Some h)
   \<and> (list_all (\<lambda>cp. cp < 0x110000) c \<and> \<not> list_ex is_surrogate c \<longrightarrow>
        text_decode_utf8 (utf8_bytes c) = Some c)
   \<and> (list_all (\<lambda>cp. cp < 0x110000) j \<and> \<not> list_ex is_surrogate j \<longrightarrow>
        text_decode_utf8 (utf8_bytes j) = Some j)"
  by (simp add: create_zip_bytes_unicode_eq read_store_archive decode_utf8_bytes)

text \<open>
  Claim C2 as stated fails on a text that holds a lone surrogate: no archive is
  produced, the function raises.
\<close>

theorem zip_round_trip_surrogate_counterexample:
  "create_zip_bytes_unicode store_archive [0xD800] [0x70] [0x78] = Inl UnicodeEncodeError"
  by (simp add: create_zip_bytes_unicode_eq is_surrogate_def)

theorem zip_round_trip_witness:
  "create_zip_bytes_unicode store_archive sample_unicode [0x70] [0x78]
     = Inr (store_archive [(''index.html'', utf8_bytes sample_unicode), (''style.css'', utf8_bytes [0x70]),
                           (''script.js'', utf8_bytes [0x78])])
   \<and> read_archive
        (store_archive [(''index.html'', utf8_bytes sample_unicode), (''style.css'', utf8_bytes [0x70]),
                        (''script.js'', utf8_bytes [0x78])])
     = Some [(''index.html'', utf8_bytes sample_unicode), (''style.css'', utf8_bytes [0x70]),
             (''script.js'', utf8_bytes [0x78])]
   \<and> text_decode_utf8 (utf8_bytes sample_unicode) = Some sample_unicode"
  using zip_round_trip [of store_archive sample_unicode "[0x70]" "[0x78]"]
  by (simp add: sample_unicode_def is_surrogate_def read_store_archive)

section \<open>Properties of the session\<close>

lemma sample_response_parsed:
  "website_of_response sample_response
     = Inr \<lparr>html = ''<p>--hi--</p>'', css = ''p { color: red; }'', js = ''let x = 1;''\<rparr>"
  by (simp add: website_of_response_def extract_between_def str_split_def py_index_def
      sample_response_def split_pieces.simps str_strip_def py_isspace_def)

lemma partial_response_parsed:
  "website_of_response partial_response = Inr \<lparr>html = ''<p>hi</p>'', css = '''', js = ''''\<rparr>"
  by (simp add: website_of_response_def extract_between_def str_split_def py_index_def
      partial_response_def split_pieces.simps str_strip_def py_isspace_def)





lemma zip_bytes_ok_spec_text: "zip_bytes_ok zf (st\<lparr>spec_text := s\<rparr>) = zip_bytes_ok zf st"
  by (simp add: zip_bytes_ok_def)

lemma on_generate_spec_ok:
  "on_generate_spec sv w st = Inr st' \<Longrightarrow> zip_bytes_ok zf st \<Longrightarrow> zip_bytes_ok zf st'"
  by (auto simp: on_generate_spec_def zip_bytes_ok_spec_text
      split: option.splits sum.splits if_splits)

lemma store_website_ok:
  "zip_bytes_ok zf st \<Longrightarrow> zip_bytes_ok zf (fst (store_website zf w st))"
  by (auto simp: store_website_def Let_def zip_bytes_ok_def)

lemma site_step_ok:
  assumes "zip_bytes_ok zf st"
  shows "zip_bytes_ok zf (fst (site_step zf sv w st))"
proof (cases "spec_text st \<noteq> [] \<and> generate_site_btn w")
  case False
  with assms show ?thesis by (auto simp: site_step_def)
next
  case True
  show ?thesis
  proof (cases "build_website_from_spec (llm_site sv) (spec_text st)")
    case (Inl e)
    with True assms show ?thesis
      by (simp add: site_step_def on_generate_site_def)
  next
    case (Inr website)
    with True have "fst (site_step zf sv w st) = fst (store_website zf website st)"
      by (simp add: site_step_def on_generate_site_def split: prod.splits)
    with assms show ?thesis
      by (simp add: store_website_ok)
  qed
qed

lemma script_run_ok:
  "zip_bytes_ok zf st \<Longrightarrow> zip_bytes_ok zf (fst (script_run zf sv w st))"
  by (auto simp: script_run_def site_step_ok on_generate_spec_ok split: sum.splits)

lemma reachable_ok: "reachable zf st \<Longrightarrow> zip_bytes_ok zf st"
proof (induction rule: reachable.induct)
  case fresh
  show ?case by (simp add: zip_bytes_ok_def init_session_def)
next
  case (run st sv w)
  then show ?case by (simp add: script_run_ok)
qed

lemma sample_resume_text:
  "extract_resume_text sample_pdf_reader sample_docx_reader (Some docx_typed_pdf_named)
     = Inr ''PDF page 1\<newline>''"
  by (simp add: extract_resume_text_def docx_typed_pdf_named_def str_endswith_def str_lower_def
      lower_char_def extract_text_from_pdf_def sample_pdf_reader_def or_empty_def)

lemma first_run:
  "fst (script_run zf (sample_services response) click_generate_spec init_session)
     = init_session\<lparr>spec_text := ''Name: Jane Doe''\<rparr>"
  by (simp add: script_run_def site_step_def on_generate_spec_def click_generate_spec_def
      sample_services_def sample_resume_text str_strip_def py_isspace_def
      build_spec_from_resume_def)

text \<open>
  Claim C10.  In every session that runs of the script can reach, the archive bytes
  are \<open>None\<close> or the result of \<^verbatim>\<open>create_zip_bytes\<close> on three nonempty texts.  They can
  be stale: a session is reachable whose archive was built from an earlier response
  while the html, css and js shown come from a later one (here one with empty css
  and js, after which no archive was built).
\<close>

theorem zip_bytes_invariant:
  "(\<forall>st. reachable zip_format st \<longrightarrow>
      zip_bytes st = None
      \<or> (\<exists>h c j. h \<noteq> [] \<and> c \<noteq> [] \<and> j \<noteq> []
            \<and> zip_bytes st = Some (create_zip_bytes zip_format h c j)))
   \<and> (\<exists>st. reachable zip_format st
         \<and> zip_bytes st
             = Some (create_zip_bytes zip_format ''<p>--hi--</p>'' ''p { color: red; }'' ''let x = 1;'')
         \<and> html_code st = ''<p>hi</p>'' \<and> css_code st = [] \<and> js_code st = [])"
proof
  show "\<forall>st. reachable zip_format st \<longrightarrow>
      zip_bytes st = None
      \<or> (\<exists>h c j. h \<noteq> [] \<and> c \<noteq> [] \<and> j \<noteq> []
            \<and> zip_bytes st = Some (create_zip_bytes zip_format h c j))"
    using reachable_ok [of zip_format] by (simp add: zip_bytes_ok_def)
next
  let ?s1 = "fst (script_run zip_format (sample_services sample_response) click_generate_spec init_session)"
  let ?s2 = "fst (script_run zip_format (sample_services sample_response) click_generate_site ?s1)"
  let ?s3 = "fst (script_run zip_format (sample_services partial_response) click_generate_site ?s2)"
  let ?z = "Some (create_zip_bytes zip_format ''<p>--hi--</p>'' ''p { color: red; }'' ''let x = 1;'')"
  have r: "reachable zip_format ?s3"
    by (intro reachable.run reachable.fresh)
  have 1: "?s1 = init_session\<lparr>spec_text := ''Name: Jane Doe''\<rparr>"
    by (rule first_run)
  have 2: "?s2 = \<lparr>spec_text = ''Name: Jane Doe'', html_code = ''<p>--hi--</p>'',
        css_code = ''p { color: red; }'', js_code = ''let x = 1;'', zip_bytes = ?z\<rparr>"
    unfolding 1
    by (simp add: script_run_def site_step_def on_generate_site_def click_generate_site_def
        sample_services_def build_website_from_spec_def sample_response_parsed store_website_def
        init_session_def)
  have 3: "?s3 = \<lparr>spec_text = ''Name: Jane Doe'', html_code = ''<p>hi</p>'',
        css_code = [], js_code = [], zip_bytes = ?z\<rparr>"
    unfolding 2
    by (simp add: script_run_def site_step_def on_generate_site_def click_generate_site_def
        sample_services_def build_website_from_spec_def partial_response_parsed store_website_def)
  let ?st = "\<lparr>spec_text = ''Name: Jane Doe'', html_code = ''<p>hi</p>'',
        css_code = [], js_code = [], zip_bytes = ?z\<rparr>"
  from r have "reachable zip_format ?st"
    unfolding 3 .
  then have "reachable zip_format ?st \<and> zip_bytes ?st = ?z
         \<and> html_code ?st = ''<p>hi</p>'' \<and> css_code ?st = [] \<and> js_code ?st = []"
    by simp
  then show "\<exists>st. reachable zip_format st \<and> zip_bytes st = ?z
         \<and> html_code st = ''<p>hi</p>'' \<and> css_code st = [] \<and> js_code st = []"
    by blast
qed

theorem zip_bytes_invariant_witness:
  "reachable store_archive
     (fst (script_run store_archive (sample_services sample_response) click_generate_site
        (init_session\<lparr>spec_text := ''Name: Jane Doe''\<rparr>)))
   \<and> (\<exists>h c j. h \<noteq> [] \<and> c \<noteq> [] \<and> j \<noteq> []
        \<and> zip_bytes (fst (script_run store_archive (sample_services sample_response) click_generate_site
             (init_session\<lparr>spec_text := ''Name: Jane Doe''\<rparr>)))
          = Some (create_zip_bytes store_archive h c j))"
proof -
  let ?s1 = "fst (script_run store_archive (sample_services sample_response) click_generate_spec init_session)"
  let ?s2 = "fst (script_run store_archive (sample_services sample_response) click_generate_site
        (init_session\<lparr>spec_text := ''Name: Jane Doe''\<rparr>))"
  have 1: "?s1 = init_session\<lparr>spec_text := ''Name: Jane Doe''\<rparr>"
    by (rule first_run)
  have "reachable store_archive ?s1"
    by (intro reachable.run reachable.fresh)
  then have "reachable store_archive (init_session\<lparr>spec_text := ''Name: Jane Doe''\<rparr>)"
    unfolding 1 .
  then have r: "reachable store_archive ?s2"
    by (rule reachable.run)
  have z: "zip_bytes ?s2 \<noteq> None"
    by (simp add: script_run_def site_step_def on_generate_site_def click_generate_site_def
        sample_services_def build_website_from_spec_def sample_response_parsed store_website_def
        init_session_def)
  from zip_bytes_invariant [of store_archive, THEN conjunct1, rule_format, OF r] z r
  show ?thesis by simp
qed

end
